theory Spec2Isabelle
  imports Complex_Main "HOL-Library.Log_Nat" "HOL-Library.Word" "HOL-Library.While_Combinator"
begin

section \<open>JavaScript numbers\<close>

text \<open>
  Every number of \<^verbatim>\<open>main.js\<close> is an IEEE 754 binary64 value. A finite value is kept as
  the rational it denotes; the arithmetic computes the exact rational result and rounds
  it to the nearest binary64 value, ties to the even significand, as the language
  prescribes. The two zeros are identified: they are told apart only by a division by
  zero, and the only divisor of the program that is not a non-zero constant or a
  non-zero canvas dimension is \<^verbatim>\<open>zoom\<close>. The type holds every rational, more than the
  binary64 values; every result of the arithmetic is a binary64 value, and what is proved
  for all numbers holds for the binary64 ones.
\<close>

datatype number = Fin rat | PInf | NInf | NaN

definition pow2 :: "int \<Rightarrow> rat" where
  "pow2 e = 2 powi e"

definition ilog2 :: "rat \<Rightarrow> int" where
  \<comment> \<open>for \<open>0 < q\<close>: the exponent \<open>e\<close> with \<open>2 ^ e \<le> q < 2 ^ (e + 1)\<close>\<close>
  "ilog2 q = (if 1 \<le> q then bitlen \<lfloor>q\<rfloor> - 1 else - bitlen (\<lceil>1 / q\<rceil> - 1))"

definition round_half_even :: "rat \<Rightarrow> int" where
  "round_half_even r =
     (let f = \<lfloor>r\<rfloor>; d = r - of_int f
      in if d < 1 / 2 then f else if 1 / 2 < d then f + 1 else if even f then f else f + 1)"

definition rnd :: "rat \<Rightarrow> number" where
  \<comment> \<open>the binary64 value of an exact result: 53 significant bits, exponents from
      \<open>-1022\<close> (below it the spacing stays \<open>2 ^ -1074\<close>), overflow to an infinity\<close>
  "rnd q =
     (if q = 0 then Fin 0
      else let e = max (ilog2 \<bar>q\<bar>) (- 1022);
               u = pow2 (e - 52);
               r = of_int (round_half_even (\<bar>q\<bar> / u)) * u
           in if pow2 1024 \<le> r then (if 0 < q then PInf else NInf) else Fin (sgn q * r))"

definition lit :: "rat \<Rightarrow> number" where
  \<comment> \<open>the value of a decimal literal of the source\<close>
  "lit q = rnd q"

definition num :: "nat \<Rightarrow> number" where
  \<comment> \<open>the value of a non-negative integer: a canvas dimension, a loop counter\<close>
  "num n = rnd (of_nat n)"

definition inum :: "int \<Rightarrow> number" where
  "inum n = rnd (of_int n)"

instantiation number :: "{uminus, plus, minus, times, inverse, ord}"
begin

fun uminus_number :: "number \<Rightarrow> number" where
  "uminus_number (Fin a) = Fin (- a)"
| "uminus_number PInf = NInf"
| "uminus_number NInf = PInf"
| "uminus_number NaN = NaN"

fun plus_number :: "number \<Rightarrow> number \<Rightarrow> number" where
  "plus_number (Fin a) (Fin b) = rnd (a + b)"
| "plus_number NaN _ = NaN"
| "plus_number _ NaN = NaN"
| "plus_number PInf NInf = NaN"
| "plus_number NInf PInf = NaN"
| "plus_number PInf _ = PInf"
| "plus_number NInf _ = NInf"
| "plus_number _ PInf = PInf"
| "plus_number _ NInf = NInf"

definition minus_number :: "number \<Rightarrow> number \<Rightarrow> number" where
  "minus_number a b = a + (- b)"

fun times_number :: "number \<Rightarrow> number \<Rightarrow> number" where
  "times_number (Fin a) (Fin b) = rnd (a * b)"
| "times_number NaN _ = NaN"
| "times_number _ NaN = NaN"
| "times_number (Fin a) PInf = (if a = 0 then NaN else if 0 < a then PInf else NInf)"
| "times_number (Fin a) NInf = (if a = 0 then NaN else if 0 < a then NInf else PInf)"
| "times_number PInf (Fin b) = (if b = 0 then NaN else if 0 < b then PInf else NInf)"
| "times_number NInf (Fin b) = (if b = 0 then NaN else if 0 < b then NInf else PInf)"
| "times_number PInf PInf = PInf"
| "times_number NInf NInf = PInf"
| "times_number PInf NInf = NInf"
| "times_number NInf PInf = NInf"

fun divide_number :: "number \<Rightarrow> number \<Rightarrow> number" where
  "divide_number (Fin a) (Fin b) =
     (if b = 0 then (if a = 0 then NaN else if 0 < a then PInf else NInf) else rnd (a / b))"
| "divide_number NaN _ = NaN"
| "divide_number _ NaN = NaN"
| "divide_number (Fin a) _ = Fin 0"
| "divide_number PInf (Fin b) = (if 0 \<le> b then PInf else NInf)"
| "divide_number NInf (Fin b) = (if 0 \<le> b then NInf else PInf)"
| "divide_number _ _ = NaN"

definition inverse_number :: "number \<Rightarrow> number" where
  "inverse_number a = divide (Fin 1) a"

fun less_number :: "number \<Rightarrow> number \<Rightarrow> bool" where
  "less_number (Fin a) (Fin b) = (a < b)"
| "less_number NaN _ = False"
| "less_number _ NaN = False"
| "less_number NInf NInf = False"
| "less_number NInf _ = True"
| "less_number PInf _ = False"
| "less_number _ PInf = True"
| "less_number _ NInf = False"

fun less_eq_number :: "number \<Rightarrow> number \<Rightarrow> bool" where
  "less_eq_number (Fin a) (Fin b) = (a \<le> b)"
| "less_eq_number NaN _ = False"
| "less_eq_number _ NaN = False"
| "less_eq_number NInf _ = True"
| "less_eq_number _ PInf = True"
| "less_eq_number PInf _ = False"
| "less_eq_number _ NInf = False"

instance ..

end

fun Math_round :: "number \<Rightarrow> number" where
  \<comment> \<open>the integer nearest to the argument, a tie going up\<close>
  "Math_round (Fin q) = Fin (of_int \<lfloor>q + 1 / 2\<rfloor>)"
| "Math_round x = x"

section \<open>The colour mapper\<close>

definition hue2rgb :: "number \<Rightarrow> number \<Rightarrow> number \<Rightarrow> number" where
  "hue2rgb p q t0 =
     (let t1 = (if t0 < lit 0 then t0 + lit 1 else t0);
          t = (if t1 > lit 1 then t1 - lit 1 else t1)
      in if t < lit 1 / lit 6 then p + (q - p) * lit 6 * t
         else if t < lit 1 / lit 2 then q
         else if t < lit 2 / lit 3 then p + (q - p) * (lit 2 / lit 3 - t) * lit 6
         else p)"

definition hslToRgb :: "number \<Rightarrow> number \<Rightarrow> number \<Rightarrow> number \<times> number \<times> number" where
  "hslToRgb h s l =
     (let (r, g, b) =
            (if s = lit 0 then (l, l, l)
             else let q = (if l < lit 0.5 then l * (lit 1 + s) else l + s - l * s);
                      p = lit 2 * l - q
                  in (hue2rgb p q (h + lit 1 / lit 3), hue2rgb p q h, hue2rgb p q (h - lit 1 / lit 3)))
      in (Math_round (r * lit 255), Math_round (g * lit 255), Math_round (b * lit 255)))"

section \<open>The canvas\<close>

text \<open>
  The canvas context is the platform's: \<^verbatim>\<open>createImageData\<close> raises \<^verbatim>\<open>IndexSizeError\<close> when a
  dimension is zero and otherwise returns \<open>4 * sw * sh\<close> bytes of transparent black in a
  clamped byte array; a store into that array converts the number to a byte (clamped to
  \<open>0..255\<close>, rounded to the nearest integer, a tie to the even one) and a store outside it
  is ignored. Canvas dimensions are unsigned integers.
\<close>

type_synonym byte = "8 word"

datatype error = IndexSizeError

definition createImageData :: "nat \<Rightarrow> nat \<Rightarrow> error + byte list" where
  "createImageData sw sh =
     (if sw = 0 \<or> sh = 0 then Inl IndexSizeError else Inr (replicate (4 * sw * sh) 0))"

fun toUint8Clamp :: "number \<Rightarrow> byte" where
  "toUint8Clamp (Fin q) =
     (if q \<le> 0 then 0 else if 255 \<le> q then 255 else word_of_int (round_half_even q))"
| "toUint8Clamp PInf = 255"
| "toUint8Clamp NInf = 0"
| "toUint8Clamp NaN = 0"

definition store :: "byte list \<Rightarrow> nat \<Rightarrow> number \<Rightarrow> byte list" where
  "store data i v = data[i := toUint8Clamp v]"

section \<open>The fractal evaluator\<close>

text \<open>
  The globals of \<^verbatim>\<open>main.js\<close> that the evaluator and the wheel handler read or write, and
  the image the canvas shows. \<^verbatim>\<open>maxIterations\<close> is an integer and the loop counter
  \<^verbatim>\<open>iteration\<close> counts in integers, which is what the program's numbers do below
  \<open>2 ^ 53\<close>.
\<close>

record state =
  width :: nat
  height :: nat
  maxIterations :: int
  zoom :: number
  offsetX :: number
  offsetY :: number
  canvas :: "byte list"

definition initial :: "nat \<Rightarrow> nat \<Rightarrow> state" where
  \<comment> \<open>lines 8 to 15, for a canvas of the given size showing nothing yet\<close>
  "initial w h =
     \<lparr>width = w, height = h, maxIterations = 100, zoom = lit 1, offsetX = - lit 0.5,
      offsetY = lit 0, canvas = replicate (4 * w * h) 0\<rparr>"

function escape_loop ::
  "number \<Rightarrow> number \<Rightarrow> int \<Rightarrow> number \<times> number \<times> int \<Rightarrow> number \<times> number \<times> int" where
  \<comment> \<open>the while loop of lines 34 to 39, from the values of \<^verbatim>\<open>x\<close>, \<^verbatim>\<open>y\<close> and
      \<^verbatim>\<open>iteration\<close> to their values when it exits\<close>
  "escape_loop x0 y0 maxIt (x, y, iteration) =
     (if x * x + y * y \<le> lit 4 \<and> iteration < maxIt
      then escape_loop x0 y0 maxIt (x * x - y * y + x0, lit 2 * x * y + y0, iteration + 1)
      else (x, y, iteration))"
  by pat_completeness auto
termination
  by (relation "measure (\<lambda>(x0, y0, maxIt, x, y, iteration). nat (maxIt - iteration))") auto

declare escape_loop.simps [simp del]

definition pixel_x0 :: "state \<Rightarrow> nat \<Rightarrow> number" where
  \<comment> \<open>line 27\<close>
  "pixel_x0 s px = (num px - num (width s) / lit 2) * (lit 4 / num (width s)) / zoom s + offsetX s"

definition pixel_y0 :: "state \<Rightarrow> nat \<Rightarrow> number" where
  \<comment> \<open>line 28\<close>
  "pixel_y0 s py = (num py - num (height s) / lit 2) * (lit 4 / num (height s)) / zoom s + offsetY s"

definition iterations :: "number \<Rightarrow> number \<Rightarrow> int \<Rightarrow> int" where
  \<comment> \<open>lines 30 to 39: the value of \<^verbatim>\<open>iteration\<close> after the loop\<close>
  "iterations x0 y0 maxIt =
     (case escape_loop x0 y0 maxIt (lit 0, lit 0, 0) of (x, y, iteration) \<Rightarrow> iteration)"

definition colorValue :: "int \<Rightarrow> int \<Rightarrow> number" where
  \<comment> \<open>line 42\<close>
  "colorValue maxIt iteration =
     (if iteration = maxIt then lit 0 else (inum iteration / inum maxIt) * lit 360)"

definition pixel_rgb :: "state \<Rightarrow> nat \<Rightarrow> nat \<Rightarrow> number \<times> number \<times> number" where
  \<comment> \<open>lines 27 to 43: the value of \<^verbatim>\<open>rgb\<close> at a pixel\<close>
  "pixel_rgb s px py =
     (let iteration = iterations (pixel_x0 s px) (pixel_y0 s py) (maxIterations s)
      in hslToRgb (colorValue (maxIterations s) iteration / lit 360) (lit 1) (lit 0.5))"

definition pixel :: "state \<Rightarrow> nat \<Rightarrow> nat \<Rightarrow> byte list \<Rightarrow> byte list" where
  \<comment> \<open>the body of the inner loop, lines 26 to 49: the four stores of the pixel\<close>
  "pixel s py px data =
     (let (r, g, b) = pixel_rgb s px py;
          pixelIndex = (py * width s + px) * 4
      in store (store (store (store data pixelIndex r) (pixelIndex + 1) g) (pixelIndex + 2) b)
           (pixelIndex + 3) (lit 255))"

definition generateMandelbrot :: "state \<Rightarrow> error + state" where
  "generateMandelbrot s =
     (case createImageData (width s) (height s) of
        Inl e \<Rightarrow> Inl e
      | Inr data \<Rightarrow>
          Inr (s\<lparr>canvas :=
                 fold (\<lambda>py. fold (\<lambda>px. pixel s py px) [0..<width s]) [0..<height s] data\<rparr>))"

definition rgba :: "byte list \<Rightarrow> nat \<Rightarrow> nat \<Rightarrow> nat \<Rightarrow> byte list" where
  \<comment> \<open>the four bytes of pixel \<open>(px, py)\<close> in a row-major buffer \<open>w\<close> pixels wide\<close>
  "rgba data w px py = take 4 (drop ((py * w + px) * 4) data)"

definition bytes :: "number \<times> number \<times> number \<Rightarrow> byte list" where
  \<comment> \<open>what the four stores of a pixel leave in the buffer\<close>
  "bytes c = (case c of (r, g, b) \<Rightarrow> [toUint8Clamp r, toUint8Clamp g, toUint8Clamp b, toUint8Clamp (lit 255)])"

definition row :: "state \<Rightarrow> nat \<Rightarrow> nat \<Rightarrow> byte list" where
  \<comment> \<open>the bytes of the first \<open>n\<close> pixels of row \<open>py\<close>\<close>
  "row s n py = concat (map (\<lambda>px. bytes (pixel_rgb s px py)) [0..<n])"

definition image :: "state \<Rightarrow> nat \<Rightarrow> byte list" where
  \<comment> \<open>the bytes of the first \<open>m\<close> rows\<close>
  "image s m = concat (map (row s (width s)) [0..<m])"

text \<open>
  The escape-time recurrence as the specification words it: a while loop on
  \<open>(x, y, iteration)\<close>, here the loop combinator of the library.
\<close>

definition reference_cond :: "int \<Rightarrow> number \<times> number \<times> int \<Rightarrow> bool" where
  "reference_cond iterationBudget =
     (\<lambda>(x, y, iteration). x * x + y * y \<le> lit 4 \<and> iteration < iterationBudget)"

definition reference_step :: "number \<Rightarrow> number \<Rightarrow> number \<times> number \<times> int \<Rightarrow> number \<times> number \<times> int" where
  "reference_step x0 y0 =
     (\<lambda>(x, y, iteration). (x * x - y * y + x0, lit 2 * x * y + y0, iteration + 1))"

definition reference_count :: "number \<Rightarrow> number \<Rightarrow> int \<Rightarrow> int option" where
  "reference_count x0 y0 iterationBudget =
     map_option (\<lambda>(x, y, iteration). iteration)
       (while_option (reference_cond iterationBudget) (reference_step x0 y0) (lit 0, lit 0, 0))"

section \<open>The wheel handler\<close>

record wheel_event =
  deltaY :: number
  clientX :: number
  clientY :: number
  rect_left :: number
  rect_top :: number

definition wheel_viewport :: "wheel_event \<Rightarrow> state \<Rightarrow> state" where
  \<comment> \<open>lines 93 to 110: the handler up to the new offsets\<close>
  "wheel_viewport ev s =
     (let mouseX = clientX ev - rect_left ev;
          mouseY = clientY ev - rect_top ev;
          x0 = (mouseX - num (width s) / lit 2) * (lit 4 / num (width s)) / zoom s + offsetX s;
          y0 = (mouseY - num (height s) / lit 2) * (lit 4 / num (height s)) / zoom s + offsetY s;
          zoom' = (if deltaY ev < lit 0 then zoom s * lit 1.1 else zoom s / lit 1.1)
      in s\<lparr>zoom := zoom',
            offsetX := x0 - (mouseX - num (width s) / lit 2) * (lit 4 / num (width s)) / zoom',
            offsetY := y0 - (mouseY - num (height s) / lit 2) * (lit 4 / num (height s)) / zoom'\<rparr>)"

definition plane_x :: "state \<Rightarrow> number \<Rightarrow> number" where
  \<comment> \<open>the mapping of lines 27 and 98 at a horizontal position on the canvas\<close>
  "plane_x s m = (m - num (width s) / lit 2) * (lit 4 / num (width s)) / zoom s + offsetX s"

definition plane_y :: "state \<Rightarrow> number \<Rightarrow> number" where
  \<comment> \<open>the mapping of lines 28 and 99 at a vertical position on the canvas\<close>
  "plane_y s m = (m - num (height s) / lit 2) * (lit 4 / num (height s)) / zoom s + offsetY s"

fun close_to :: "rat \<Rightarrow> number \<Rightarrow> number \<Rightarrow> bool" where
  \<comment> \<open>the second number is the first up to the relative tolerance\<close>
  "close_to tol (Fin x) (Fin y) = (\<bar>y - x\<bar> \<le> tol * \<bar>x\<bar>)"
| "close_to tol _ _ = False"

definition wheel :: "wheel_event \<Rightarrow> state \<Rightarrow> state \<times> error option" where
  \<comment> \<open>the whole handler: the globals it leaves, and the exception of the render, if any\<close>
  "wheel ev s =
     (let s' = wheel_viewport ev s
      in case generateMandelbrot s' of Inl e \<Rightarrow> (s', Some e) | Inr s'' \<Rightarrow> (s'', None))"

section \<open>Facts about rounding\<close>

lemma pow2_pos: "0 < pow2 e" by (simp add: pow2_def)
lemma pow2_add: "pow2 (a + b) = pow2 a * pow2 b" by (simp add: pow2_def power_int_add)
lemma pow2_mono: "a \<le> b \<Longrightarrow> pow2 a \<le> pow2 b" by (simp add: pow2_def power_int_increasing)
lemma pow2_nat: "0 \<le> e \<Longrightarrow> pow2 e = 2 ^ nat e" by (simp add: pow2_def power_int_def)
lemma pow2_neg: "e \<le> 0 \<Longrightarrow> pow2 e = 1 / 2 ^ nat (- e)" by (simp add: pow2_def power_int_def field_simps)

lemma ilog2_bounds:
  assumes "0 < q"
  shows "pow2 (ilog2 q) \<le> q \<and> q < pow2 (ilog2 q + 1)"
proof (cases "1 \<le> q")
  case True
  define n where "n = \<lfloor>q\<rfloor>"
  have n1: "1 \<le> n" using True by (simp add: n_def le_floor_iff)
  then have npos: "0 < n" by simp
  have b1: "1 \<le> bitlen n" using npos by (simp add: bitlen_alt_def) 
  have e: "ilog2 q = bitlen n - 1" using True by (simp add: ilog2_def n_def)
  from bitlen_bounds[OF npos] have lo: "2 ^ nat (bitlen n - 1) \<le> n" and hi: "n < 2 ^ nat (bitlen n)" by auto
  have "pow2 (bitlen n - 1) = of_int (2 ^ nat (bitlen n - 1))" using b1 by (simp add: pow2_nat)
  also have "\<dots> \<le> of_int n" using lo by (simp only: of_int_le_iff)
  also have "\<dots> \<le> q" by (simp add: n_def)
  finally have A: "pow2 (ilog2 q) \<le> q" by (simp add: e)
  have "n + 1 \<le> 2 ^ nat (bitlen n)" using hi by simp
  then have "of_int (n + 1) \<le> (of_int (2 ^ nat (bitlen n)) :: rat)" by (simp only: of_int_le_iff)
  moreover have "q < of_int (n + 1)" unfolding n_def by linarith
  ultimately have "q < of_int (2 ^ nat (bitlen n))" by linarith
  also have "\<dots> = pow2 (bitlen n - 1 + 1)" using b1 by (simp add: pow2_nat)
  finally have B: "q < pow2 (ilog2 q + 1)" by (simp add: e)
  from A B show ?thesis ..
next
  case False
  then have q1: "q < 1" by simp
  define c where "c = \<lceil>1 / q\<rceil>"
  have y1: "1 < 1 / q" using assms q1 by (simp add: field_simps)
  have c2: "2 \<le> c" using y1 unfolding c_def by linarith
  then have cpos: "0 < c - 1" by simp
  define k where "k = bitlen (c - 1)"
  have k1: "1 \<le> k" using cpos by (simp add: k_def bitlen_alt_def)
  have e: "ilog2 q = - k" using False by (simp add: ilog2_def c_def k_def)
  from bitlen_bounds[OF cpos] have lo: "2 ^ nat (k - 1) \<le> c - 1" and hi: "c - 1 < 2 ^ nat k"
    by (auto simp: k_def)
  have "c \<le> 2 ^ nat k" using hi by simp
  then have "(of_int c :: rat) \<le> 2 ^ nat k" by simp
  moreover have "1 / q \<le> of_int c" by (simp add: c_def)
  ultimately have "1 / q \<le> 2 ^ nat k" by linarith
  then have "1 / 2 ^ nat k \<le> q" using assms by (simp add: field_simps)
  then have A: "pow2 (ilog2 q) \<le> q" using k1 by (simp add: e pow2_neg)
  have "2 ^ nat (k - 1) + 1 \<le> c" using lo by simp
  then have "(of_int (2 ^ nat (k - 1) + 1) :: rat) \<le> of_int c" by (simp only: of_int_le_iff)
  then have "(2 ^ nat (k - 1) + 1 :: rat) \<le> of_int c" by simp
  moreover have "of_int c < 1 / q + 1" unfolding c_def by linarith
  ultimately have "2 ^ nat (k - 1) < 1 / q" by linarith
  then have "q < 1 / 2 ^ nat (k - 1)" using assms by (simp add: field_simps)
  moreover have "pow2 (- k + 1) = 1 / 2 ^ nat (k - 1)" using k1 by (simp add: pow2_neg)
  ultimately have B: "q < pow2 (ilog2 q + 1)" by (simp add: e)
  from A B show ?thesis ..
qed

lemma ilog2_unique:
  assumes "pow2 e \<le> q" "q < pow2 (e + 1)"
  shows "ilog2 q = e"
proof -
  have qpos: "0 < q" using assms(1) pow2_pos[of e] by linarith
  from ilog2_bounds[OF qpos] have b: "pow2 (ilog2 q) \<le> q" "q < pow2 (ilog2 q + 1)" by auto
  have "\<not> ilog2 q + 1 \<le> e"
  proof
    assume "ilog2 q + 1 \<le> e"
    then have "pow2 (ilog2 q + 1) \<le> pow2 e" by (rule pow2_mono)
    with b assms show False by linarith
  qed
  moreover have "\<not> e + 1 \<le> ilog2 q"
  proof
    assume "e + 1 \<le> ilog2 q"
    then have "pow2 (e + 1) \<le> pow2 (ilog2 q)" by (rule pow2_mono)
    with b assms show False by linarith
  qed
  ultimately show ?thesis by linarith
qed

lemma round_half_even_eqI:
  assumes "\<bar>r - of_int m\<bar> * 2 < 1 \<or> (\<bar>r - of_int m\<bar> * 2 = 1 \<and> even m)"
  shows "round_half_even r = m"
proof -
  define f where "f = \<lfloor>r\<rfloor>"
  have fl: "of_int f \<le> r" "r < of_int f + 1" unfolding f_def by linarith+
  from assms show ?thesis
  proof
    assume a: "\<bar>r - of_int m\<bar> * 2 < 1"
    show ?thesis
    proof (cases "r - of_int f < 1 / 2")
      case True
      have "of_int m < (of_int (f + 1) :: rat)" using a True fl by (simp add: abs_if split: if_splits)
      moreover have "(of_int (f - 1) :: rat) < of_int m" using a True fl by (simp add: abs_if split: if_splits)
      ultimately have "m = f" by (simp only: of_int_less_iff)
      then show ?thesis using True by (simp add: round_half_even_def f_def Let_def)
    next
      case False
      have "(of_int f :: rat) < of_int m" using a False fl by (simp add: abs_if split: if_splits)
      moreover have "(of_int m :: rat) < of_int (f + 2)" using a False fl by (simp add: abs_if split: if_splits)
      ultimately have mf: "m = f + 1" by (simp only: of_int_less_iff)
      have "r - of_int f \<noteq> 1 / 2" using a mf by (auto simp: abs_if split: if_splits)
      then have "1 / 2 < r - of_int f" using False by linarith
      then show ?thesis using False mf by (simp add: round_half_even_def f_def Let_def)
    qed
  next
    assume a: "\<bar>r - of_int m\<bar> * 2 = 1 \<and> even m"
    then have "r = of_int m + 1 / 2 \<or> r = of_int m - 1 / 2" by (auto simp: abs_if split: if_splits)
    then show ?thesis
    proof
      assume r: "r = of_int m + 1 / 2"
      have "\<lfloor>r\<rfloor> = m" unfolding r by linarith
      then show ?thesis using a by (simp add: round_half_even_def Let_def r)
    next
      assume r: "r = of_int m - 1 / 2"
      have "\<lfloor>r\<rfloor> = m - 1" unfolding r by linarith
      then show ?thesis using a by (simp add: round_half_even_def Let_def r)
    qed
  qed
qed

lemma rnd_pos:
  assumes q: "0 < q"
    and e: "- 1022 \<le> e" "e = - 1022 \<or> pow2 e \<le> q" "q < pow2 (e + 1)"
    and m: "\<bar>q - of_int m * pow2 (e - 52)\<bar> * 2 < pow2 (e - 52)
            \<or> (\<bar>q - of_int m * pow2 (e - 52)\<bar> * 2 = pow2 (e - 52) \<and> even m)"
    and fin: "of_int m * pow2 (e - 52) < pow2 1024"
  shows "rnd q = Fin (of_int m * pow2 (e - 52))"
proof -
  define u where "u = pow2 (e - 52)"
  have u: "0 < u" by (simp add: u_def pow2_pos)
  have ee: "max (ilog2 \<bar>q\<bar>) (- 1022) = e"
  proof (cases "pow2 e \<le> q")
    case True
    then have "ilog2 q = e" using e(3) by (rule ilog2_unique)
    then show ?thesis using q e(1) by simp
  next
    case False
    then have e1: "e = - 1022" using e(2) by simp
    have "\<not> - 1021 \<le> ilog2 q"
    proof
      assume "- 1021 \<le> ilog2 q"
      then have "pow2 (- 1021) \<le> pow2 (ilog2 q)" by (rule pow2_mono)
      also have "\<dots> \<le> q" using ilog2_bounds[OF q] by simp
      finally show False using e(3) e1 by simp
    qed
    then show ?thesis using q e1 by simp
  qed
  have "\<bar>q / u - of_int m\<bar> = \<bar>q - of_int m * u\<bar> / u"
    using u by (simp add: field_simps abs_if)
  then have "\<bar>q / u - of_int m\<bar> * 2 < 1 \<or> (\<bar>q / u - of_int m\<bar> * 2 = 1 \<and> even m)"
    using m u by (auto simp: u_def[symmetric] field_simps)
  then have "round_half_even (q / u) = m" by (rule round_half_even_eqI)
  then show ?thesis using q fin ee by (simp add: rnd_def Let_def u_def)
qed

lemma rnd_uminus: "rnd (- q) = - rnd q"
  by (simp add: rnd_def Let_def sgn_if)

lemma rnd_exact:
  assumes "q = of_int m * pow2 k" "\<bar>m\<bar> < 2 ^ 53" "- 1074 \<le> k" "k \<le> 971"
  shows "rnd q = Fin q"
proof (cases "m = 0")
  case True
  then show ?thesis using assms(1) by (simp add: rnd_def)
next
  case False
  have q0: "q \<noteq> 0" using False assms(1) pow2_pos[of k] by simp
  then have aq: "0 < \<bar>q\<bar>" by simp
  have absq: "\<bar>q\<bar> = of_int \<bar>m\<bar> * pow2 k"
    using pow2_pos[of k] by (simp add: assms(1) abs_mult)
  define e where "e = max (ilog2 \<bar>q\<bar>) (- 1022)"
  have "(of_int \<bar>m\<bar> :: rat) < of_int (2 ^ 53)" using assms(2) by (simp only: of_int_less_iff)
  then have m53: "(of_int \<bar>m\<bar> :: rat) < pow2 53" by (simp add: pow2_def)
  have qlt: "\<bar>q\<bar> < pow2 (53 + k)"
    unfolding absq pow2_add using m53 pow2_pos[of k] by simp
  have ek: "e - 52 \<le> k"
  proof (cases "ilog2 \<bar>q\<bar> \<le> - 1022")
    case True
    then show ?thesis using assms(3) by (simp add: e_def)
  next
    case False
    then have "e = ilog2 \<bar>q\<bar>" by (simp add: e_def)
    then have "pow2 e \<le> \<bar>q\<bar>" using ilog2_bounds[OF aq] by simp
    then have "pow2 e < pow2 (53 + k)" using qlt by linarith
    then have "\<not> 53 + k \<le> e" using pow2_mono[of "53 + k" e] by linarith
    then show ?thesis by simp
  qed
  define M where "M = \<bar>m\<bar> * 2 ^ nat (k - (e - 52))"
  have "pow2 k = pow2 (k - (e - 52)) * pow2 (e - 52)" by (simp add: pow2_add[symmetric])
  also have "pow2 (k - (e - 52)) = 2 ^ nat (k - (e - 52))" using ek by (simp add: pow2_nat)
  finally have qM: "\<bar>q\<bar> = of_int M * pow2 (e - 52)" by (simp add: absq M_def)
  then have "\<bar>q\<bar> / pow2 (e - 52) = of_int M" using pow2_pos[of "e - 52"] by simp
  moreover have "round_half_even (of_int M) = M" by (rule round_half_even_eqI) simp
  ultimately have r: "round_half_even (\<bar>q\<bar> / pow2 (e - 52)) = M" by simp
  have "pow2 (53 + k) \<le> pow2 1024" using assms(4) by (intro pow2_mono) simp
  then have fin: "\<not> pow2 1024 \<le> \<bar>q\<bar>" using qlt by linarith
  have sg: "sgn q * \<bar>q\<bar> = q" by (simp add: sgn_if)
  have "rnd q =
      (if pow2 1024 \<le> of_int (round_half_even (\<bar>q\<bar> / pow2 (e - 52))) * pow2 (e - 52)
       then (if 0 < q then PInf else NInf)
       else Fin (sgn q * (of_int (round_half_even (\<bar>q\<bar> / pow2 (e - 52))) * pow2 (e - 52))))"
    using q0 by (simp add: rnd_def Let_def e_def)
  also have "\<dots> = Fin (sgn q * \<bar>q\<bar>)"
    unfolding r qM[symmetric] using fin by simp
  finally show ?thesis by (simp only: sg)
qed

lemma round_half_even_cases: "round_half_even r = \<lfloor>r\<rfloor> \<or> (round_half_even r = \<lfloor>r\<rfloor> + 1 \<and> of_int \<lfloor>r\<rfloor> < r)"
  by (auto simp: round_half_even_def Let_def)

lemma round_half_even_le:
  assumes "r \<le> of_int K"
  shows "round_half_even r \<le> K"
proof -
  have f: "\<lfloor>r\<rfloor> \<le> K" using assms by (simp add: floor_le_iff) 
  from round_half_even_cases[of r] show ?thesis
  proof
    assume "round_half_even r = \<lfloor>r\<rfloor>"
    then show ?thesis using f by simp
  next
    assume a: "round_half_even r = \<lfloor>r\<rfloor> + 1 \<and> of_int \<lfloor>r\<rfloor> < r"
    then have "(of_int \<lfloor>r\<rfloor> :: rat) < of_int K" using assms by linarith
    then have "\<lfloor>r\<rfloor> < K" by (simp only: of_int_less_iff)
    then show ?thesis using a by simp
  qed
qed

lemma round_half_even_ge:
  assumes "of_int K \<le> r"
  shows "K \<le> round_half_even r"
proof -
  have "K \<le> \<lfloor>r\<rfloor>" using assms by (simp add: le_floor_iff)
  then show ?thesis using round_half_even_cases[of r] by auto
qed

lemma round_half_even_err: "\<bar>of_int (round_half_even r) - r\<bar> \<le> 1 / 2"
proof -
  define f where "f = \<lfloor>r\<rfloor>"
  have "of_int f \<le> r" "r < of_int f + 1" unfolding f_def by linarith+
  then show ?thesis
    unfolding round_half_even_def Let_def f_def[symmetric]
    by (cases "r - of_int f < 1 / 2"; cases "1 / 2 < r - of_int f") (simp_all add: abs_if)
qed

text \<open>The shape of a rounding of a positive number.\<close>

lemma rnd_unfold_pos:
  assumes "0 < q"
  shows "rnd q =
    (let e = max (ilog2 q) (- 1022); u = pow2 (e - 52); r = of_int (round_half_even (q / u)) * u
     in if pow2 1024 \<le> r then PInf else Fin r)"
  using assms by (simp add: rnd_def Let_def)

lemma rnd_ge_pow2:
  assumes "pow2 k \<le> q" "- 1022 \<le> k"
  shows "rnd q = PInf \<or> (\<exists>r. rnd q = Fin r \<and> pow2 k \<le> r)"
proof -
  have q: "0 < q" using assms(1) pow2_pos[of k] by linarith
  define e where "e = max (ilog2 q) (- 1022)"
  define u where "u = pow2 (e - 52)"
  define r where "r = of_int (round_half_even (q / u)) * u"
  have u: "0 < u" by (simp add: u_def pow2_pos)
  have "\<not> ilog2 q + 1 \<le> k"
  proof
    assume "ilog2 q + 1 \<le> k"
    then have "pow2 (ilog2 q + 1) \<le> pow2 k" by (rule pow2_mono)
    then show False using ilog2_bounds[OF q] assms(1) by linarith
  qed
  then have ke: "k \<le> ilog2 q" by simp
  then have e: "e = ilog2 q" using assms(2) by (simp add: e_def)
  have "pow2 e \<le> q" using ilog2_bounds[OF q] by (simp add: e)
  moreover have "pow2 e = pow2 52 * u" by (simp add: u_def pow2_add[symmetric])
  ultimately have "pow2 52 \<le> q / u" using u by (simp add: field_simps)
  moreover have "pow2 52 = of_int (2 ^ 52)" by (simp add: pow2_def)
  ultimately have "of_int (2 ^ 52) \<le> q / u" by simp
  then have "2 ^ 52 \<le> round_half_even (q / u)" by (rule round_half_even_ge)
  then have "(of_int (2 ^ 52) :: rat) \<le> of_int (round_half_even (q / u))" by (simp only: of_int_le_iff)
  then have "of_int (2 ^ 52) * u \<le> r" unfolding r_def using u by (simp only: mult_le_cancel_right_pos)
  moreover have "of_int (2 ^ 52) * u = pow2 e"
    using \<open>pow2 e = pow2 52 * u\<close> \<open>pow2 52 = of_int (2 ^ 52)\<close> by simp
  moreover have "pow2 k \<le> pow2 e" using ke e by (simp add: pow2_mono)
  ultimately have "pow2 k \<le> r" by linarith
  moreover have "rnd q = (if pow2 1024 \<le> r then PInf else Fin r)"
    using rnd_unfold_pos[OF q] by (simp add: Let_def e_def u_def r_def)
  ultimately show ?thesis by auto
qed

lemma rnd_le:
  assumes "0 \<le> q" "q \<le> of_int M * pow2 k" "M < 2 ^ 53" "- 1074 \<le> k" "k \<le> 971"
  shows "\<exists>r. rnd q = Fin r \<and> 0 \<le> r \<and> r \<le> of_int M * pow2 k"
proof (cases "q = 0")
  case True
  then show ?thesis using assms(1,2) by (simp add: rnd_def)
next
  case False
  then have q: "0 < q" using assms(1) by simp
  define e where "e = max (ilog2 q) (- 1022)"
  define u where "u = pow2 (e - 52)"
  define r where "r = of_int (round_half_even (q / u)) * u"
  have u: "0 < u" by (simp add: u_def pow2_pos)
  have "(of_int M :: rat) < of_int (2 ^ 53)" using assms(3) by (simp only: of_int_less_iff)
  then have "(of_int M :: rat) < pow2 53" by (simp add: pow2_def)
  then have "of_int M * pow2 k < pow2 53 * pow2 k" using pow2_pos[of k] by simp
  then have qlt: "q < pow2 (53 + k)" using assms(2) by (simp add: pow2_add)
  have ek: "e - 52 \<le> k"
  proof (cases "ilog2 q \<le> - 1022")
    case True
    then show ?thesis using assms(4) by (simp add: e_def)
  next
    case False
    then have "e = ilog2 q" by (simp add: e_def)
    then have "pow2 e \<le> q" using ilog2_bounds[OF q] by simp
    then have "pow2 e < pow2 (53 + k)" using qlt by linarith
    then have "\<not> 53 + k \<le> e" using pow2_mono[of "53 + k" e] by linarith
    then show ?thesis by simp
  qed
  define K where "K = M * 2 ^ nat (k - (e - 52))"
  have "pow2 k = pow2 (k - (e - 52)) * u" by (simp add: u_def pow2_add[symmetric])
  also have "pow2 (k - (e - 52)) = 2 ^ nat (k - (e - 52))" using ek by (simp add: pow2_nat)
  finally have B: "of_int M * pow2 k = of_int K * u" by (simp add: K_def)
  then have "q / u \<le> of_int K" using assms(2) u by (simp add: field_simps)
  then have "round_half_even (q / u) \<le> K" by (rule round_half_even_le)
  then have "(of_int (round_half_even (q / u)) :: rat) \<le> of_int K" by (simp only: of_int_le_iff)
  then have rB: "r \<le> of_int M * pow2 k" unfolding r_def B using u by (simp only: mult_le_cancel_right_pos)
  have "0 \<le> q / u" using q u by simp
  then have "0 \<le> round_half_even (q / u)" using round_half_even_ge[of 0 "q / u"] by simp
  then have r0: "0 \<le> r" unfolding r_def using u by simp
  have "pow2 (53 + k) \<le> pow2 1024" using assms(5) by (intro pow2_mono) simp
  moreover have "of_int M * pow2 k < pow2 (53 + k)"
    using \<open>of_int M * pow2 k < pow2 53 * pow2 k\<close> by (simp add: pow2_add)
  ultimately have "\<not> pow2 1024 \<le> r" using rB by linarith
  moreover have "rnd q = (if pow2 1024 \<le> r then PInf else Fin r)"
    using rnd_unfold_pos[OF q] by (simp add: Let_def e_def u_def r_def)
  ultimately show ?thesis using rB r0 by simp
qed

lemma rnd_le_nat:
  assumes "0 \<le> q" "q \<le> of_nat B" "B < 2 ^ 53"
  shows "\<exists>r. rnd q = Fin r \<and> 0 \<le> r \<and> r \<le> of_nat B"
  using rnd_le[of q "int B" 0] assms by (simp add: pow2_def)

lemma rnd_0: "rnd 0 = Fin 0" by (simp add: rnd_def)

lemma rnd_1: "rnd 1 = Fin 1" using rnd_exact [of 1 1 0] by (simp add: pow2_def)

lemma rnd_numeral: "(numeral n :: int) < 2 ^ 53 \<Longrightarrow> rnd (numeral n) = Fin (numeral n)"
  using rnd_exact [of "numeral n" "numeral n" 0] by (simp add: pow2_def)

lemma rnd_error_pos:
  assumes "0 < q" "q \<le> pow2 1023"
  shows "\<exists>r. rnd q = Fin r \<and> 0 \<le> r \<and>
           \<bar>r - q\<bar> \<le> (if pow2 (- 1022) \<le> q then pow2 (- 53) * q else pow2 (- 1075))"
proof -
  define e where "e = max (ilog2 q) (- 1022)"
  define u where "u = pow2 (e - 52)"
  define m where "m = round_half_even (q / u)"
  define r where "r = of_int m * u"
  have u: "0 < u" by (simp add: u_def pow2_pos)
  have "\<bar>of_int m - q / u\<bar> \<le> 1 / 2" unfolding m_def by (rule round_half_even_err)
  moreover have "\<bar>r - q\<bar> = \<bar>of_int m - q / u\<bar> * u"
    using u by (simp add: r_def abs_mult[symmetric] field_simps del: abs_mult)
  ultimately have "\<bar>r - q\<bar> \<le> 1 / 2 * u" using u by simp
  also have "1 / 2 * u = pow2 (e - 53)"
  proof -
    have "pow2 (e - 52) = pow2 1 * pow2 (e - 53)" by (simp add: pow2_add[symmetric])
    then show ?thesis by (simp add: u_def pow2_def)
  qed
  finally have err: "\<bar>r - q\<bar> \<le> pow2 (e - 53)" .
  have bound: "pow2 (e - 53) \<le> (if pow2 (- 1022) \<le> q then pow2 (- 53) * q else pow2 (- 1075))"
  proof (cases "pow2 (- 1022) \<le> q")
    case True
    have "\<not> ilog2 q + 1 \<le> - 1022"
    proof
      assume "ilog2 q + 1 \<le> - 1022"
      then have "pow2 (ilog2 q + 1) \<le> pow2 (- 1022)" by (rule pow2_mono)
      then show False using ilog2_bounds[OF assms(1)] True by linarith
    qed
    then have "e = ilog2 q" by (simp add: e_def)
    then have "pow2 e \<le> q" using ilog2_bounds[OF assms(1)] by simp
    moreover have "pow2 (e - 53) = pow2 (- 53) * pow2 e" by (simp add: pow2_add[symmetric])
    ultimately show ?thesis using True pow2_pos[of "- 53"] by simp
  next
    case False
    have "\<not> - 1022 < ilog2 q"
    proof
      assume "- 1022 < ilog2 q"
      then have "pow2 (- 1022) \<le> pow2 (ilog2 q)" by (intro pow2_mono) simp
      then show False using ilog2_bounds[OF assms(1)] False by linarith
    qed
    then have "e = - 1022" by (simp add: e_def)
    then show ?thesis using False by simp
  qed
  have small: "pow2 (e - 53) \<le> pow2 (- 53) * q + pow2 (- 1075)"
    using bound assms(1) pow2_pos[of "- 53"] pow2_pos[of "- 1075"]
    by (auto split: if_splits intro: order_trans)
  have "pow2 (- 53) * q \<le> pow2 (- 53) * pow2 1023"
    using assms(2) pow2_pos[of "- 53"] by (intro mult_left_mono) simp_all
  then have "q + pow2 (e - 53) \<le> pow2 1023 + (pow2 (- 53) * pow2 1023 + pow2 (- 1075))"
    using small assms(2) by linarith
  moreover have "r \<le> q + pow2 (e - 53)" using err by (simp add: abs_le_iff)
  ultimately have "r \<le> pow2 1023 + (pow2 (- 53) * pow2 1023 + pow2 (- 1075))" by linarith
  also have "\<dots> < pow2 1024" by (simp add: pow2_def)
  finally have fin: "\<not> pow2 1024 \<le> r" by simp
  have "0 \<le> q / u" using assms(1) u by simp
  then have "0 \<le> m" unfolding m_def using round_half_even_ge[of 0 "q / u"] by simp
  then have r0: "0 \<le> r" using u by (simp add: r_def)
  have "rnd q = (if pow2 1024 \<le> r then PInf else Fin r)"
    using rnd_unfold_pos[OF assms(1)] by (simp add: Let_def e_def u_def m_def r_def)
  then show ?thesis using fin err bound r0 by auto
qed

lemma rnd_error:
  assumes "\<bar>q\<bar> \<le> pow2 1023"
  shows "\<exists>r. rnd q = Fin r \<and>
           \<bar>r - q\<bar> \<le> (if pow2 (- 1022) \<le> \<bar>q\<bar> then pow2 (- 53) * \<bar>q\<bar> else pow2 (- 1075))"
proof -
  consider "q = 0" | "0 < q" | "q < 0" by linarith
  then show ?thesis
  proof cases
    case 1
    then show ?thesis using pow2_pos[of "- 1075"] by (simp add: rnd_0 pow2_def)
  next
    case 2
    then show ?thesis using rnd_error_pos[of q] assms by auto
  next
    case 3
    then have "0 < - q" "- q \<le> pow2 1023" using assms by simp_all
    from rnd_error_pos[OF this] obtain r where r: "rnd (- q) = Fin r"
      "\<bar>r - (- q)\<bar> \<le> (if pow2 (- 1022) \<le> - q then pow2 (- 53) * (- q) else pow2 (- 1075))" by auto
    have "rnd q = Fin (- r)" using rnd_uminus[of "- q"] r(1) by simp
    moreover have "\<bar>- r - q\<bar> = \<bar>r - (- q)\<bar>" by simp
    ultimately show ?thesis using r(2) 3 by (auto simp: abs_if)
  qed
qed

section \<open>The escape loop\<close>

lemma escape_loop_continue:
  "x * x + y * y \<le> lit 4 \<Longrightarrow> iteration < maxIt \<Longrightarrow>
   escape_loop x0 y0 maxIt (x, y, iteration)
     = escape_loop x0 y0 maxIt (x * x - y * y + x0, lit 2 * x * y + y0, iteration + 1)"
  by (subst escape_loop.simps) simp

lemma escape_loop_stop:
  "\<not> (x * x + y * y \<le> lit 4 \<and> iteration < maxIt) \<Longrightarrow>
   escape_loop x0 y0 maxIt (x, y, iteration) = (x, y, iteration)"
  by (subst escape_loop.simps) auto

lemma escape_loop_while:
  "while_option (reference_cond maxIt) (reference_step x0 y0) st = Some (escape_loop x0 y0 maxIt st)"
proof (induction x0 y0 maxIt st rule: escape_loop.induct)
  case (1 x0 y0 maxIt x y iteration)
  show ?case
  proof (cases "x * x + y * y \<le> lit 4 \<and> iteration < maxIt")
    case True
    have "while_option (reference_cond maxIt) (reference_step x0 y0) (x, y, iteration)
          = while_option (reference_cond maxIt) (reference_step x0 y0)
              (x * x - y * y + x0, lit 2 * x * y + y0, iteration + 1)"
      using True by (subst while_option_unfold) (simp add: reference_cond_def reference_step_def)
    also have "\<dots> = Some (escape_loop x0 y0 maxIt (x * x - y * y + x0, lit 2 * x * y + y0, iteration + 1))"
      using True by (rule "1.IH")
    also have "\<dots> = Some (escape_loop x0 y0 maxIt (x, y, iteration))"
      using True by (simp add: escape_loop_continue)
    finally show ?thesis .
  next
    case False
    have "while_option (reference_cond maxIt) (reference_step x0 y0) (x, y, iteration) = Some (x, y, iteration)"
      using False by (subst while_option_unfold) (auto simp add: reference_cond_def)
    also have "\<dots> = Some (escape_loop x0 y0 maxIt (x, y, iteration))"
      using False by (simp add: escape_loop_stop)
    finally show ?thesis .
  qed
qed

lemma escape_loop_bounds:
  "escape_loop x0 y0 maxIt (x, y, i) = (x', y', n) \<Longrightarrow> i \<le> n \<and> (i \<le> maxIt \<longrightarrow> n \<le> maxIt)"
proof (induction x0 y0 maxIt "(x, y, i)" arbitrary: x y i rule: escape_loop.induct)
  case (1 x0 y0 maxIt x y iteration)
  show ?case
  proof (cases "x * x + y * y \<le> lit 4 \<and> iteration < maxIt")
    case True
    then have "escape_loop x0 y0 maxIt (x * x - y * y + x0, lit 2 * x * y + y0, iteration + 1) = (x', y', n)"
      using "1.prems" by (simp add: escape_loop_continue)
    from "1.hyps"[OF True this] True show ?thesis by simp
  next
    case False
    then have "(x, y, iteration) = (x', y', n)"
      using "1.prems" escape_loop_stop[of x y iteration maxIt x0 y0] by simp
    then show ?thesis by simp
  qed
qed

lemma escape_loop_exit:
  "escape_loop x0 y0 maxIt st = (x', y', n) \<Longrightarrow> \<not> (x' * x' + y' * y' \<le> lit 4 \<and> n < maxIt)"
proof (induction x0 y0 maxIt st rule: escape_loop.induct)
  case (1 x0 y0 maxIt x y iteration)
  show ?case
  proof (cases "x * x + y * y \<le> lit 4 \<and> iteration < maxIt")
    case True
    then have "escape_loop x0 y0 maxIt (x * x - y * y + x0, lit 2 * x * y + y0, iteration + 1) = (x', y', n)"
      using "1.prems" by (simp add: escape_loop_continue)
    from "1.IH"[OF True this] show ?thesis .
  next
    case False
    then have "(x, y, iteration) = (x', y', n)"
      using "1.prems" escape_loop_stop[of x y iteration maxIt x0 y0] by simp
    then show ?thesis using False by simp
  qed
qed

lemma iterations_nonpositive: "maxIt \<le> 0 \<Longrightarrow> iterations x0 y0 maxIt = 0"
  by (simp add: iterations_def escape_loop_stop)

section \<open>The two loops over the pixels\<close>

lemma write4:
  assumes "length P = i" "4 \<le> length R"
  shows "(P @ R)[i := a, i + 1 := b, i + 2 := c, i + 3 := e] = P @ [a, b, c, e] @ drop 4 R"
proof -
  from assms(2) obtain r0 r1 r2 r3 R' where R: "R = r0 # r1 # r2 # r3 # R'"
    by (cases R; cases "tl R"; cases "tl (tl R)"; cases "tl (tl (tl R))") auto
  show ?thesis using assms(1) by (simp add: R list_update_append)
qed

lemma pixel_append:
  assumes "length P = (py * width s + px) * 4" "4 \<le> length R"
  shows "pixel s py px (P @ R) = P @ bytes (pixel_rgb s px py) @ drop 4 R"
proof -
  obtain r g b where c: "pixel_rgb s px py = (r, g, b)" by (cases "pixel_rgb s px py")
  show ?thesis
    using write4[OF assms, of "toUint8Clamp r" "toUint8Clamp g" "toUint8Clamp b" "toUint8Clamp (lit 255)"]
    by (simp add: pixel_def c store_def bytes_def)
qed

lemma bytes_alpha:
  "bytes c = (case c of (r, g, b) \<Rightarrow> [toUint8Clamp r, toUint8Clamp g, toUint8Clamp b, 255])"
  by (simp add: bytes_def lit_def rnd_numeral split: prod.splits)

lemma length_bytes: "length (bytes c) = 4"
  by (cases c) (simp add: bytes_def)

lemma length_row: "length (row s n py) = 4 * n"
  by (induction n) (simp_all add: row_def length_bytes)

lemma inner_loop:
  assumes "length P = py * width s * 4" "n \<le> width s" "4 * n \<le> length R"
  shows "fold (\<lambda>px. pixel s py px) [0..<n] (P @ R) = P @ row s n py @ drop (4 * n) R"
  using assms(2,3)
proof (induction n)
  case 0
  then show ?case by (simp add: row_def)
next
  case (Suc n)
  have len: "length (P @ row s n py) = (py * width s + n) * 4"
    using assms(1) by (simp add: length_row algebra_simps)
  have rest: "4 \<le> length (drop (4 * n) R)" using Suc.prems by simp
  have "fold (\<lambda>px. pixel s py px) [0..<Suc n] (P @ R)
        = pixel s py n ((P @ row s n py) @ drop (4 * n) R)"
    using Suc by simp
  also have "\<dots> = (P @ row s n py) @ bytes (pixel_rgb s n py) @ drop 4 (drop (4 * n) R)"
    using len rest by (rule pixel_append)
  also have "\<dots> = P @ row s (Suc n) py @ drop (4 * Suc n) R"
    by (simp add: row_def add.commute)
  finally show ?case .
qed

lemma length_image: "length (image s m) = 4 * width s * m"
  by (induction m) (simp_all add: image_def length_row algebra_simps)

lemma outer_loop:
  assumes "m \<le> height s" "length d = 4 * width s * height s"
  shows "fold (\<lambda>py. fold (\<lambda>px. pixel s py px) [0..<width s]) [0..<m] d
         = image s m @ drop (4 * width s * m) d"
  using assms(1)
proof (induction m)
  case 0
  then show ?case by (simp add: image_def)
next
  case (Suc m)
  have len: "length (image s m) = m * width s * 4" by (simp add: length_image)
  have "width s * Suc m \<le> width s * height s" using Suc.prems by (intro mult_le_mono2) simp
  then have rest: "4 * width s \<le> length (drop (4 * width s * m) d)"
    using assms(2) by (simp add: algebra_simps)
  have "fold (\<lambda>py. fold (\<lambda>px. pixel s py px) [0..<width s]) [0..<Suc m] d
        = fold (\<lambda>px. pixel s m px) [0..<width s] (image s m @ drop (4 * width s * m) d)"
    using Suc by simp
  also have "\<dots> = image s m @ row s (width s) m @ drop (4 * width s) (drop (4 * width s * m) d)"
    using len _ rest by (rule inner_loop) simp
  also have "\<dots> = image s (Suc m) @ drop (4 * width s * Suc m) d"
    by (simp add: image_def algebra_simps)
  finally show ?case .
qed

lemma generateMandelbrot_image:
  "generateMandelbrot s =
     (if width s = 0 \<or> height s = 0 then Inl IndexSizeError
      else Inr (s\<lparr>canvas := image s (height s)\<rparr>))"
proof (cases "width s = 0 \<or> height s = 0")
  case True
  then show ?thesis by (auto simp add: generateMandelbrot_def createImageData_def)
next
  case False
  have "fold (\<lambda>py. fold (\<lambda>px. pixel s py px) [0..<width s]) [0..<height s]
          (replicate (4 * width s * height s) 0) = image s (height s)"
    using outer_loop[of "height s" s "replicate (4 * width s * height s) 0"] by simp
  then show ?thesis using False by (simp add: generateMandelbrot_def createImageData_def)
qed

lemma rgba_row:
  assumes "px < n"
  shows "take 4 (drop (px * 4) (row s n py @ rest)) = bytes (pixel_rgb s px py)"
  using assms
proof (induction n arbitrary: rest)
  case 0
  then show ?case by simp
next
  case (Suc n)
  have r: "row s (Suc n) py = row s n py @ bytes (pixel_rgb s n py)" by (simp add: row_def)
  show ?case
  proof (cases "px < n")
    case True
    then show ?thesis using Suc.IH[of "bytes (pixel_rgb s n py) @ rest"] by (simp add: r)
  next
    case False
    then have "px = n" using Suc.prems by simp
    then show ?thesis by (simp add: r length_row length_bytes mult.commute)
  qed
qed

lemma rgba_image:
  assumes "px < width s" "py < m"
  shows "rgba (image s m) (width s) px py = bytes (pixel_rgb s px py)"
  using assms(2)
proof (induction m)
  case 0
  then show ?case by simp
next
  case (Suc m)
  have i: "image s (Suc m) = image s m @ row s (width s) m" by (simp add: image_def)
  show ?case
  proof (cases "py < m")
    case True
    have "(py * width s + px) * 4 + 4 \<le> length (image s m)"
    proof -
      have "py * width s + px + 1 \<le> py * width s + width s" using assms(1) by simp
      also have "\<dots> = (py + 1) * width s" by (simp add: algebra_simps)
      also have "\<dots> \<le> m * width s" using True by (intro mult_le_mono1) simp
      finally show ?thesis by (simp add: length_image algebra_simps)
    qed
    then have "rgba (image s (Suc m)) (width s) px py = rgba (image s m) (width s) px py"
      by (simp add: rgba_def i)
    then show ?thesis using Suc.IH True by simp
  next
    case False
    then have "py = m" using Suc.prems by simp
    then have "drop ((py * width s + px) * 4) (image s (Suc m)) = drop (px * 4) (row s (width s) m)"
      by (simp add: i length_image algebra_simps)
    then show ?thesis using rgba_row[OF assms(1), of s m "[]"] \<open>py = m\<close> by (simp add: rgba_def)
  qed
qed

section \<open>Evaluating the arithmetic\<close>

lemmas number_simps = lit_def num_def inum_def rnd_0 rnd_1 rnd_numeral rnd_uminus minus_number_def

text \<open>The arithmetic on familiar values: \<^verbatim>\<open>0.1 + 0.2\<close> is \<^verbatim>\<open>0.30000000000000004\<close>.\<close>

lemma sum_of_tenths: "lit 0.1 + lit 0.2 = Fin (1351079888211149 / 4503599627370496)"
proof -
  have "rnd (1 / 10) = Fin (3602879701896397 / 36028797018963968)"
    using rnd_pos [of "1 / 10" "-4" 7205759403792794] by (simp add: pow2_def)
  moreover have "rnd (1 / 5) = Fin (3602879701896397 / 18014398509481984)"
    using rnd_pos [of "1 / 5" "-3" 7205759403792794] by (simp add: pow2_def)
  moreover have "rnd (10808639105689191 / 36028797018963968) = Fin (1351079888211149 / 4503599627370496)"
    using rnd_pos [of "10808639105689191 / 36028797018963968" "-2" 5404319552844596] by (simp add: pow2_def)
  ultimately show ?thesis by (simp add: lit_def)
qed

text \<open>The roundings met when the colour mapper runs on the three primary hues.\<close>

lemma hsl_0: "rnd (1 / 6) = Fin (6004799503160661 / 36028797018963968)"
  using rnd_pos [of "1 / 6" "-3" 6004799503160661] by (simp add: pow2_def)

lemma hsl_1: "rnd (6004799503160661 / 18014398509481984) = Fin (6004799503160661 / 18014398509481984)"
  using rnd_pos [of "6004799503160661 / 18014398509481984" "-2" 6004799503160661] by (simp add: pow2_def)

lemma hsl_2: "rnd (1 / 3) = Fin (6004799503160661 / 18014398509481984)"
  using rnd_pos [of "1 / 3" "-2" 6004799503160661] by (simp add: pow2_def)

lemma hsl_3: "rnd (1 / 2) = Fin (1 / 2)"
  using rnd_pos [of "1 / 2" "-1" 4503599627370496] by (simp add: pow2_def)

lemma hsl_4: "rnd (6004799503160661 / 9007199254740992) = Fin (6004799503160661 / 9007199254740992)"
  using rnd_pos [of "6004799503160661 / 9007199254740992" "-1" 6004799503160661] by (simp add: pow2_def)

lemma hsl_5: "rnd (2 / 3) = Fin (6004799503160661 / 9007199254740992)"
  using rnd_pos [of "2 / 3" "-1" 6004799503160661] by (simp add: pow2_def)

lemma hsl_6: "rnd (12009599006321323 / 18014398509481984) = Fin (3002399751580331 / 4503599627370496)"
  using rnd_pos [of "12009599006321323 / 18014398509481984" "-1" 6004799503160662] by (simp add: pow2_def)

lemma hsl_7: "rnd (18014398509481983 / 18014398509481984) = Fin (1)"
  using rnd_pos [of "18014398509481983 / 18014398509481984" "-1" 9007199254740992] by (simp add: pow2_def)

lemma hsl_9: "rnd (3 / 2) = Fin (3 / 2)"
  using rnd_pos [of "3 / 2" "0" 6755399441055744] by (simp add: pow2_def)

lemmas hsl_values = hsl_0 hsl_1 hsl_2 hsl_3 hsl_4 hsl_5 hsl_6 hsl_7 hsl_9

section \<open>A budget that allows no iteration\<close>

lemma hslToRgb_red: "hslToRgb (Fin 0) (lit 1) (lit (1 / 2)) = (Fin 255, Fin 0, Fin 0)"
  by (simp add: hslToRgb_def hue2rgb_def Let_def number_simps hsl_values floor_eq_iff)

lemma inum_negative:
  assumes "n < 0"
  shows "inum n = NInf \<or> (\<exists>r. inum n = Fin r \<and> r \<le> - 1)"
proof -
  have "pow2 0 \<le> of_int (- n)" using assms by (simp add: pow2_def)
  from rnd_ge_pow2[OF this] have "rnd (of_int (- n)) = PInf \<or> (\<exists>r. rnd (of_int (- n)) = Fin r \<and> 1 \<le> r)"
    by (simp add: pow2_def)
  moreover have "inum n = - rnd (of_int (- n))" by (simp add: inum_def rnd_uminus[symmetric])
  ultimately show ?thesis by auto
qed

lemma hue_nonpositive:
  assumes "maxIt \<le> 0"
  shows "colorValue maxIt 0 / lit 360 = Fin 0"
proof (cases "maxIt = 0")
  case True
  then show ?thesis by (simp add: colorValue_def number_simps)
next
  case False
  then have "maxIt < 0" using assms by simp
  from inum_negative[OF this] have "inum 0 / inum maxIt = Fin 0"
    by (auto simp: inum_def rnd_0)
  then show ?thesis using False by (simp add: colorValue_def number_simps)
qed

lemma pixel_rgb_nonpositive:
  "maxIterations s \<le> 0 \<Longrightarrow> pixel_rgb s px py = (Fin 255, Fin 0, Fin 0)"
  by (simp add: pixel_rgb_def iterations_nonpositive hue_nonpositive hslToRgb_red)

lemma bytes_red: "bytes (Fin 255, Fin 0, Fin 0) = [255, 0, 0, 255]"
  by (simp add: bytes_def number_simps)

lemma concat_replicate_mult:
  "concat (replicate m (concat (replicate n c))) = concat (replicate (n * m) c)"
  by (induction m) (simp_all add: replicate_add)

lemma image_nonpositive:
  assumes "maxIterations s \<le> 0"
  shows "image s m = concat (replicate (width s * m) [255, 0, 0, 255])"
proof -
  have "row s n = (\<lambda>py. concat (replicate n [255, 0, 0, 255]))" for n
    using assms by (intro ext) (simp add: row_def pixel_rgb_nonpositive bytes_red map_replicate_const)
  then show ?thesis by (simp add: image_def map_replicate_const concat_replicate_mult)
qed

lemma render_nonpositive:
  "maxIterations s \<le> 0 \<Longrightarrow>
   generateMandelbrot s =
     (if width s = 0 \<or> height s = 0 then Inl IndexSizeError
      else Inr (s\<lparr>canvas := concat (replicate (width s * height s) [255, 0, 0, 255])\<rparr>))"
  by (simp add: generateMandelbrot_image image_nonpositive)

lemma row_canvas: "row (s\<lparr>canvas := c\<rparr>) = row s"
  by (intro ext) (simp add: row_def pixel_rgb_def pixel_x0_def pixel_y0_def)

lemma image_canvas: "image (s\<lparr>canvas := c\<rparr>) m = image s m"
  by (simp add: image_def row_canvas)

section \<open>The initial view on a canvas of one pixel\<close>

text \<open>The roundings met when the initial view is rendered on a canvas of one pixel.\<close>

lemma px_0: "rnd (1 / 100) = Fin (5764607523034235 / 576460752303423488)"
  using rnd_pos [of "1 / 100" "-7" 5764607523034235] by (simp add: pow2_def)

lemma px_1: "rnd (8106479329266893 / 810647932926689280) = Fin (5764607523034235 / 576460752303423488)"
  using rnd_pos [of "8106479329266893 / 810647932926689280" "-7" 5764607523034235] by (simp add: pow2_def)

lemma px_2: "rnd (1080863910568919 / 18014398509481984) = Fin (1080863910568919 / 18014398509481984)"
  using rnd_pos [of "1080863910568919 / 18014398509481984" "-5" 8646911284551352] by (simp add: pow2_def)

lemma px_3: "rnd (17293822569102705 / 288230376151711744) = Fin (1080863910568919 / 18014398509481984)"
  using rnd_pos [of "17293822569102705 / 288230376151711744" "-5" 8646911284551352] by (simp add: pow2_def)

lemma px_4: "rnd (186388976578106917 / 576460752303423488) = Fin (5824655518065841 / 18014398509481984)"
  using rnd_pos [of "186388976578106917 / 576460752303423488" "-2" 5824655518065841] by (simp add: pow2_def)

lemma px_5: "rnd (197918191624175387 / 576460752303423488) = Fin (6184943488255481 / 18014398509481984)"
  using rnd_pos [of "197918191624175387 / 576460752303423488" "-2" 6184943488255481] by (simp add: pow2_def)

lemma px_6: "rnd (12189742991416143 / 18014398509481984) = Fin (761858936963509 / 1125899906842624)"
  using rnd_pos [of "12189742991416143 / 18014398509481984" "-1" 6094871495708072] by (simp add: pow2_def)

lemma px_7: "rnd (5 / 2) = Fin (5 / 2)"
  using rnd_pos [of "5 / 2" "1" 5629499534213120] by (simp add: pow2_def)

lemma px_8: "rnd (259407338536540575 / 72057594037927936) = Fin (8106479329266893 / 2251799813685248)"
  using rnd_pos [of "259407338536540575 / 72057594037927936" "1" 8106479329266893] by (simp add: pow2_def)

lemma px_10: "rnd (25 / 4) = Fin (25 / 4)"
  using rnd_pos [of "25 / 4" "2" 7036874417766400] by (simp add: pow2_def)

lemma px_11: "rnd (41 / 4) = Fin (41 / 4)"
  using rnd_pos [of "41 / 4" "3" 5770237022568448] by (simp add: pow2_def)

lemma px_12: "rnd (275620297195074345 / 18014398509481984) = Fin (8613134287346073 / 562949953421312)"
  using rnd_pos [of "275620297195074345 / 18014398509481984" "3" 8613134287346073] by (simp add: pow2_def)

lemmas px_values = px_0 px_1 px_2 px_3 px_4 px_5 px_6 px_7 px_8 px_10 px_11 px_12

lemma initial_x0: "pixel_x0 (initial 1 1) 0 = Fin (- (5 / 2))"
  by (simp add: pixel_x0_def initial_def number_simps hsl_values px_values)

lemma initial_y0: "pixel_y0 (initial 1 1) 0 = Fin (- 2)"
  by (simp add: pixel_y0_def initial_def number_simps hsl_values px_values)

lemma initial_iterations: "iterations (Fin (- (5 / 2))) (Fin (- 2)) 100 = 1"
  by (simp add: iterations_def escape_loop_continue escape_loop_stop number_simps hsl_values px_values)

lemma initial_hue: "colorValue 100 1 / lit 360 = Fin (5764607523034235 / 576460752303423488)"
  by (simp add: colorValue_def number_simps hsl_values px_values)

lemma initial_colour:
  "hslToRgb (Fin (5764607523034235 / 576460752303423488)) (lit 1) (lit 0.5) = (Fin 255, Fin 15, Fin 0)"
  by (simp add: hslToRgb_def hue2rgb_def Let_def number_simps hsl_values px_values floor_eq_iff)

lemma initial_rgb: "pixel_rgb (initial 1 1) 0 0 = (Fin 255, Fin 15, Fin 0)"
proof -
  have m: "maxIterations (initial 1 1) = 100" by (simp add: initial_def)
  show ?thesis
    unfolding pixel_rgb_def m initial_x0 initial_y0 initial_iterations Let_def initial_hue initial_colour ..
qed

lemma initial_bytes: "bytes (Fin 255, Fin 15, Fin 0) = [255, 15, 0, 255]"
  by (simp add: bytes_def number_simps round_half_even_def)

lemma initial_render:
  "generateMandelbrot (initial 1 1) = Inr ((initial 1 1)\<lparr>canvas := [255, 15, 0, 255]\<rparr>)"
proof -
  have h: "height (initial 1 1) = 1" by (simp add: initial_def)
  have i: "image (initial 1 1) 1 = row (initial 1 1) 1 0" by (simp add: image_def initial_def)
  have r: "row (initial 1 1) 1 0 = bytes (pixel_rgb (initial 1 1) 0 0)" by (simp add: row_def)
  have "generateMandelbrot (initial 1 1)
        = Inr ((initial 1 1)\<lparr>canvas := image (initial 1 1) (height (initial 1 1))\<rparr>)"
    by (simp add: generateMandelbrot_image initial_def)
  then show ?thesis unfolding h i r initial_rgb initial_bytes .
qed

section \<open>The range of the colour mapper\<close>

lemma rnd_unit: "0 \<le> q \<Longrightarrow> q \<le> 1 \<Longrightarrow> \<exists>r. rnd q = Fin r \<and> 0 \<le> r \<and> r \<le> 1"
  using rnd_le_nat[of q 1] by simp

lemma hue2rgb_unit:
  assumes "- (1 / 2) \<le> b" "b \<le> 3 / 2"
  shows "\<exists>c. hue2rgb (Fin 0) (Fin 1) (Fin b) = Fin c \<and> 0 \<le> c \<and> c \<le> 1"
proof -
  obtain b1 where t1: "(if Fin b < lit 0 then Fin b + lit 1 else Fin b) = Fin b1" "0 \<le> b1" "b1 \<le> 3 / 2"
  proof (cases "b < 0")
    case True
    then have "0 \<le> b + 1" "b + 1 \<le> 1" using assms by simp_all
    from rnd_unit[OF this] obtain r where "rnd (b + 1) = Fin r" "0 \<le> r" "r \<le> 1" by auto
    then show ?thesis using True that[of r] by (simp add: number_simps)
  next
    case False
    then show ?thesis using assms that[of b] by (simp add: number_simps)
  qed
  obtain b2 where t: "(if Fin b1 > lit 1 then Fin b1 - lit 1 else Fin b1) = Fin b2" "0 \<le> b2" "b2 \<le> 1"
  proof (cases "1 < b1")
    case True
    then have "0 \<le> b1 - 1" "b1 - 1 \<le> 1" using t1 by simp_all
    from rnd_unit[OF this] obtain r where "rnd (b1 - 1) = Fin r" "0 \<le> r" "r \<le> 1" by auto
    then show ?thesis using True that[of r] by (simp add: number_simps)
  next
    case False
    then show ?thesis using t1 that[of b1] by (simp add: number_simps)
  qed
  have sixth: "lit 1 / lit 6 = Fin (6004799503160661 / 36028797018963968)"
    and half: "lit 1 / lit 2 = Fin (1 / 2)"
    and twothirds: "lit 2 / lit 3 = Fin (6004799503160661 / 9007199254740992)"
    by (simp_all add: number_simps hsl_values)
  have add0: "Fin 0 + Fin v = rnd v" for v by simp
  have diff: "Fin 1 - Fin 0 = Fin 1" by (simp add: number_simps)
  have six: "Fin 1 * lit 6 = Fin 6" by (simp add: number_simps)
  have h: "hue2rgb (Fin 0) (Fin 1) (Fin b) =
      (if Fin b2 < Fin (6004799503160661 / 36028797018963968) then Fin 0 + Fin 6 * Fin b2
       else if Fin b2 < Fin (1 / 2) then Fin 1
       else if Fin b2 < Fin (6004799503160661 / 9007199254740992)
            then Fin 0 + Fin 1 * (Fin (6004799503160661 / 9007199254740992) - Fin b2) * lit 6
            else Fin 0)"
    unfolding hue2rgb_def Let_def t1(1) t(1) sixth half twothirds diff six ..
  consider (A) "b2 < 6004799503160661 / 36028797018963968"
    | (B) "6004799503160661 / 36028797018963968 \<le> b2" "b2 < 1 / 2"
    | (C) "1 / 2 \<le> b2" "b2 < 6004799503160661 / 9007199254740992"
    | (D) "6004799503160661 / 9007199254740992 \<le> b2" by linarith
  then show ?thesis
  proof cases
    case A
    then have "0 \<le> 6 * b2" "6 * b2 \<le> 1" using t(2) by simp_all
    from rnd_unit[OF this] obtain v where v: "rnd (6 * b2) = Fin v" "0 \<le> v" "v \<le> 1" by auto
    from rnd_unit[OF v(2,3)] obtain c where c: "rnd v = Fin c" "0 \<le> c" "c \<le> 1" by auto
    have "hue2rgb (Fin 0) (Fin 1) (Fin b) = Fin c" using A by (simp add: h v c)
    then show ?thesis using c by simp
  next
    case B
    then have "hue2rgb (Fin 0) (Fin 1) (Fin b) = Fin 1" by (simp add: h)
    then show ?thesis by simp
  next
    case C
    define d where "d = 6004799503160661 / 9007199254740992 - b2"
    have d: "0 \<le> d" "d \<le> of_int 1501199875790165 * pow2 (- 53)"
      using C by (simp_all add: d_def pow2_def)
    from rnd_le[OF d] obtain w where w: "rnd d = Fin w" "0 \<le> w" "w \<le> of_int 1501199875790165 * pow2 (- 53)"
      by auto
    from rnd_le[OF w(2,3)] obtain w' where w': "rnd w = Fin w'" "0 \<le> w'" "w' \<le> of_int 1501199875790165 * pow2 (- 53)"
      by auto
    have "0 \<le> w' * 6" "w' * 6 \<le> 1" using w'(2,3) by (simp_all add: pow2_def)
    from rnd_unit[OF this] obtain v where v: "rnd (w' * 6) = Fin v" "0 \<le> v" "v \<le> 1" by auto
    from rnd_unit[OF v(2,3)] obtain c where c: "rnd v = Fin c" "0 \<le> c" "c \<le> 1" by auto
    have "Fin (6004799503160661 / 9007199254740992) - Fin b2 = Fin w"
      using w(1) by (simp add: minus_number_def d_def)
    then have "hue2rgb (Fin 0) (Fin 1) (Fin b) = Fin c"
      using C by (simp add: h w' v c number_simps)
    then show ?thesis using c by simp
  next
    case D
    then have "hue2rgb (Fin 0) (Fin 1) (Fin b) = Fin 0" by (simp add: h)
    then show ?thesis by simp
  qed
qed

lemma num_exact: "n < 2 ^ 53 \<Longrightarrow> num n = Fin (of_nat n)"
  using rnd_exact[of "of_nat n" "int n" 0] by (simp add: num_def pow2_def)

lemma inum_exact: "\<bar>n\<bar> < 2 ^ 53 \<Longrightarrow> inum n = Fin (of_int n)"
  using rnd_exact[of "of_int n" n 0] by (simp add: inum_def pow2_def)

lemma channel_byte:
  assumes "0 \<le> c" "c \<le> 1"
  shows "\<exists>k. Math_round (Fin c * lit 255) = num k \<and> k \<le> 255 \<and> toUint8Clamp (num k) = of_nat k"
proof -
  have "0 \<le> c * 255" "c * 255 \<le> of_nat 255" using assms by simp_all
  from rnd_le_nat[OF this] obtain d where d: "rnd (c * 255) = Fin d" "0 \<le> d" "d \<le> 255" by auto
  define k where "k = nat \<lfloor>d + 1 / 2\<rfloor>"
  have f0: "0 \<le> \<lfloor>d + 1 / 2\<rfloor>" using d(2) by (simp add: le_floor_iff)
  have "d + 1 / 2 < of_int 256" using d(3) by simp
  then have fl: "\<lfloor>d + 1 / 2\<rfloor> < 256" by (simp only: floor_less_iff)
  have k: "k \<le> 255" "int k = \<lfloor>d + 1 / 2\<rfloor>" unfolding k_def using f0 fl by linarith+
  have nk: "num k = Fin (of_nat k)" using k(1) by (intro num_exact) simp
  have "(of_int \<lfloor>d + 1 / 2\<rfloor> :: rat) = of_nat k" using k(2) by (metis of_int_of_nat_eq)
  then have m: "Math_round (Fin c * lit 255) = num k"
    by (simp add: lit_def rnd_numeral d(1) nk)
  have "round_half_even (of_nat k) = int k"
    by (rule round_half_even_eqI) simp
  then have "toUint8Clamp (Fin (of_nat k)) = of_nat k"
    using k(1) by (cases "k = 255") auto
  then have tc: "toUint8Clamp (num k) = of_nat k" by (simp only: nk)
  show ?thesis using m k(1) tc by blast
qed

lemma hslToRgb_unit:
  assumes "0 \<le> a" "a \<le> 1"
  shows "\<exists>r g b. hslToRgb (Fin a) (lit 1) (lit 0.5) = (num r, num g, num b)
           \<and> r \<le> 255 \<and> g \<le> 255 \<and> b \<le> 255
           \<and> bytes (num r, num g, num b) = [of_nat r, of_nat g, of_nat b, 255]"
proof -
  have third: "lit 1 / lit 3 = Fin (6004799503160661 / 18014398509481984)"
    by (simp add: number_simps hsl_values)
  have "0 \<le> a + 6004799503160661 / 18014398509481984"
       "a + 6004799503160661 / 18014398509481984 \<le> of_int 3 * pow2 (- 1)"
    using assms by (simp_all add: pow2_def)
  from rnd_le[OF this] obtain t1 where t1: "Fin a + Fin (6004799503160661 / 18014398509481984) = Fin t1"
      "- (1 / 2) \<le> t1" "t1 \<le> 3 / 2"
    by (auto simp: pow2_def)
  obtain t3 where t3: "Fin a - Fin (6004799503160661 / 18014398509481984) = Fin t3"
      "- (1 / 2) \<le> t3" "t3 \<le> 3 / 2"
  proof (cases "6004799503160661 / 18014398509481984 \<le> a")
    case True
    then have "0 \<le> a - 6004799503160661 / 18014398509481984" "a - 6004799503160661 / 18014398509481984 \<le> 1"
      using assms by simp_all
    from rnd_unit[OF this] obtain r where "rnd (a - 6004799503160661 / 18014398509481984) = Fin r" "0 \<le> r" "r \<le> 1"
      by auto
    then show ?thesis using that[of r] by (simp add: minus_number_def)
  next
    case False
    then have "0 \<le> 6004799503160661 / 18014398509481984 - a"
      "6004799503160661 / 18014398509481984 - a \<le> of_int 6004799503160661 * pow2 (- 54)"
      using assms by (simp_all add: pow2_def)
    from rnd_le[OF this] obtain r where r: "rnd (6004799503160661 / 18014398509481984 - a) = Fin r" "0 \<le> r"
      "r \<le> of_int 6004799503160661 * pow2 (- 54)" by auto
    have "rnd (a - 6004799503160661 / 18014398509481984) = - rnd (6004799503160661 / 18014398509481984 - a)"
      using rnd_uminus[of "6004799503160661 / 18014398509481984 - a"] by simp
    then have "Fin a - Fin (6004799503160661 / 18014398509481984) = Fin (- r)"
      using r(1) by (simp add: minus_number_def)
    moreover have "- (1 / 2) \<le> - r" "- r \<le> 3 / 2" using r(2,3) by (simp_all add: pow2_def)
    ultimately show ?thesis using that[of "- r"] by simp
  qed
  have t2: "- (1 / 2) \<le> a" "a \<le> 3 / 2" using assms by simp_all
  from hue2rgb_unit[OF t1(2,3)] obtain c1 where c1: "hue2rgb (Fin 0) (Fin 1) (Fin t1) = Fin c1" "0 \<le> c1" "c1 \<le> 1" by auto
  from hue2rgb_unit[OF t2] obtain c2 where c2: "hue2rgb (Fin 0) (Fin 1) (Fin a) = Fin c2" "0 \<le> c2" "c2 \<le> 1" by auto
  from hue2rgb_unit[OF t3(2,3)] obtain c3 where c3: "hue2rgb (Fin 0) (Fin 1) (Fin t3) = Fin c3" "0 \<le> c3" "c3 \<le> 1" by auto
  from channel_byte[OF c1(2,3)] obtain r where r: "Math_round (Fin c1 * lit 255) = num r" "r \<le> 255" "toUint8Clamp (num r) = of_nat r" by auto
  from channel_byte[OF c2(2,3)] obtain g where g: "Math_round (Fin c2 * lit 255) = num g" "g \<le> 255" "toUint8Clamp (num g) = of_nat g" by auto
  from channel_byte[OF c3(2,3)] obtain b where b: "Math_round (Fin c3 * lit 255) = num b" "b \<le> 255" "toUint8Clamp (num b) = of_nat b" by auto
  have q: "lit 0.5 + lit 1 - lit 0.5 * lit 1 = Fin 1" by (simp add: number_simps hsl_values)
  have p: "lit 2 * lit 0.5 - Fin 1 = Fin 0" by (simp add: number_simps hsl_values)
  have s: "lit 1 \<noteq> lit 0" "\<not> lit 0.5 < lit 0.5" by (simp_all add: number_simps hsl_values)
  have "hslToRgb (Fin a) (lit 1) (lit 0.5) = (num r, num g, num b)"
    unfolding hslToRgb_def Let_def using s
    by (simp only: if_False q p third t1(1) t3(1) c1(1) c2(1) c3(1) r(1) g(1) b(1) prod.case)
  moreover have "bytes (num r, num g, num b) = [of_nat r, of_nat g, of_nat b, 255]"
    by (simp add: bytes_def r(3) g(3) b(3)) (simp add: number_simps)
  ultimately show ?thesis using r(2) g(2) b(2) by blast
qed

lemma hue_unit:
  assumes "0 \<le> n" "n < N" "N < 2 ^ 53"
  shows "\<exists>a. colorValue N n / lit 360 = Fin a \<and> 0 \<le> a \<and> a \<le> 1"
    and "1 \<le> n \<Longrightarrow> colorValue N n \<noteq> lit 0"
proof -
  have n: "inum n = Fin (of_int n)" and N: "inum N = Fin (of_int N)"
    using assms by (simp_all add: inum_exact)
  have N0: "(of_int N :: rat) > 0" using assms by simp
  have "0 \<le> (of_int n :: rat) / of_int N" "(of_int n :: rat) / of_int N \<le> 1"
    using assms by simp_all
  from rnd_unit[OF this] obtain a1 where a1: "rnd (of_int n / of_int N) = Fin a1" "0 \<le> a1" "a1 \<le> 1" by auto
  have "0 \<le> a1 * 360" "a1 * 360 \<le> of_nat 360" using a1 by simp_all
  from rnd_le_nat[OF this] obtain a2 where a2: "rnd (a1 * 360) = Fin a2" "0 \<le> a2" "a2 \<le> 360" by auto
  have "0 \<le> a2 / 360" "a2 / 360 \<le> 1" using a2 by simp_all
  from rnd_unit[OF this] obtain a where a: "rnd (a2 / 360) = Fin a" "0 \<le> a" "a \<le> 1" by auto
  have cv: "colorValue N n = Fin a2"
    using assms N0 by (simp add: colorValue_def n N a1 a2 lit_def rnd_numeral)
  then have "colorValue N n / lit 360 = Fin a" by (simp add: a lit_def rnd_numeral)
  then show "\<exists>a. colorValue N n / lit 360 = Fin a \<and> 0 \<le> a \<and> a \<le> 1" using a by blast
  show "colorValue N n \<noteq> lit 0" if "1 \<le> n"
  proof -
    have "(of_int N :: rat) < of_int (2 ^ 53)" using assms(3) by (simp only: of_int_less_iff)
    then have NN: "(of_int N :: rat) < 2 ^ 53" by simp
    have "(1 :: rat) \<le> of_int n" using that by simp
    then have "1 / 2 ^ 53 \<le> (of_int n :: rat) / of_int N"
      using N0 NN by (simp add: field_simps)
    then have "pow2 (- 53) \<le> (of_int n :: rat) / of_int N" by (simp add: pow2_def)
    from rnd_ge_pow2[OF this] a1(1) have l1: "pow2 (- 53) \<le> a1" by simp
    then have "pow2 (- 53) \<le> a1 * 360" using a1(2) by linarith
    from rnd_ge_pow2[OF this] a2(1) have "pow2 (- 53) \<le> a2" by simp
    then have "0 < a2" using pow2_pos[of "- 53"] by linarith
    then show ?thesis by (simp add: cv lit_def rnd_0)
  qed
qed

lemma iterations_first:
  assumes "1 \<le> maxIt"
  shows "1 \<le> iterations x0 y0 maxIt" "iterations x0 y0 maxIt \<le> maxIt"
proof -
  obtain x y n where e: "escape_loop x0 y0 maxIt (lit 0, lit 0, 0) = (x, y, n)"
    by (cases "escape_loop x0 y0 maxIt (lit 0, lit 0, 0)")
  have c: "lit 0 * lit 0 + lit 0 * lit 0 \<le> lit 4" by (simp add: number_simps)
  have "escape_loop x0 y0 maxIt (lit 0, lit 0, 0)
      = escape_loop x0 y0 maxIt (lit 0 * lit 0 - lit 0 * lit 0 + x0, lit 2 * lit 0 * lit 0 + y0, 0 + 1)"
    using c assms by (intro escape_loop_continue) simp_all
  with e have "escape_loop x0 y0 maxIt (lit 0 * lit 0 - lit 0 * lit 0 + x0, lit 2 * lit 0 * lit 0 + y0, 0 + 1) = (x, y, n)"
    by simp
  from escape_loop_bounds[OF this] assms have "1 \<le> n" "n \<le> maxIt" by simp_all
  then show "1 \<le> iterations x0 y0 maxIt" "iterations x0 y0 maxIt \<le> maxIt"
    by (simp_all add: iterations_def e)
qed

section \<open>The zoom factor of the wheel handler\<close>

lemma rnd_1_1: "rnd (11 / 10) = Fin (2476979795053773 / 2251799813685248)"
  using rnd_pos [of "11 / 10" "0" 4953959590107546] by (simp add: pow2_def)

lemma lit_1_1: "lit 1.1 = Fin (2476979795053773 / 2251799813685248)"
  by (simp add: lit_def rnd_1_1)

lemma wheel_fst:
  "fst (wheel ev s) = wheel_viewport ev s \<or>
   (\<exists>c. fst (wheel ev s) = (wheel_viewport ev s)\<lparr>canvas := c\<rparr>)"
  by (auto simp: wheel_def Let_def generateMandelbrot_image)

lemma wheel_zoom:
  "zoom (fst (wheel ev s)) = (if deltaY ev < lit 0 then zoom s * lit 1.1 else zoom s / lit 1.1)"
proof -
  have "zoom (fst (wheel ev s)) = zoom (wheel_viewport ev s)"
    using wheel_fst[of ev s] by auto
  then show ?thesis by (simp add: wheel_viewport_def Let_def)
qed

lemma rnd_normal:
  assumes "pow2 (- 1022) \<le> q" "q \<le> pow2 1023"
  obtains r where "rnd q = Fin r" "\<bar>r - q\<bar> \<le> q / 9007199254740992"
proof -
  have q: "0 < q" using assms(1) pow2_pos[of "- 1022"] by linarith
  then have "\<bar>q\<bar> \<le> pow2 1023" "pow2 (- 1022) \<le> \<bar>q\<bar>" using assms by simp_all
  from rnd_error[OF this(1)] this(2) q obtain r where "rnd q = Fin r" "\<bar>r - q\<bar> \<le> pow2 (- 53) * q"
    by auto
  then show ?thesis using that[of r] by (simp add: pow2_def)
qed

lemma round_trip:
  assumes z: "2 * pow2 (- 1022) \<le> z" "2 * z \<le> pow2 1023"
    and d: "\<bar>d - z\<bar> \<le> z / 9007199254740992"
  shows "\<exists>b. rnd d = Fin b \<and> \<bar>b - z\<bar> \<le> 1 / 10 ^ 9 * \<bar>z\<bar>"
proof -
  have zp: "0 < z" using z(1) pow2_pos[of "- 1022"] by linarith
  have d1: "d \<le> z + z / 9007199254740992" "z - z / 9007199254740992 \<le> d"
    using d by linarith+
  have "pow2 (- 1022) \<le> d" "d \<le> pow2 1023" using d1 z zp by linarith+
  from rnd_normal[OF this] obtain b where b: "rnd d = Fin b" "\<bar>b - d\<bar> \<le> d / 9007199254740992" by blast
  have "\<bar>b - z\<bar> \<le> \<bar>b - d\<bar> + \<bar>d - z\<bar>" by simp
  also have "\<dots> \<le> d / 9007199254740992 + z / 9007199254740992" using b(2) d by linarith
  also have "\<dots> \<le> 1 / 10 ^ 9 * z" using d1 zp by simp
  finally show ?thesis using b(1) zp by auto
qed

lemma tiny_out:
  "Fin (5 * pow2 (- 1074)) / Fin (2476979795053773 / 2251799813685248) = Fin (5 * pow2 (- 1074))"
  using rnd_pos [of "5 * pow2 (- 1074) / (2476979795053773 / 2251799813685248)" "- 1022" 5]
  by (simp add: pow2_def)

lemma tiny_in:
  "Fin (5 * pow2 (- 1074)) * Fin (2476979795053773 / 2251799813685248) = Fin (6 * pow2 (- 1074))"
  using rnd_pos [of "5 * pow2 (- 1074) * (2476979795053773 / 2251799813685248)" "- 1022" 6]
  by (simp add: pow2_def)

section \<open>Recentring after a zoom step\<close>

lemma rnd_grid:
  assumes "rnd q = Fin r"
  shows "\<exists>n. r = of_int n * pow2 (- 1074)"
proof (cases "q = 0")
  case True
  then have "r = 0" using assms by (simp add: rnd_0)
  then show ?thesis by (intro exI[of _ 0]) simp
next
  case False
  define e where "e = max (ilog2 \<bar>q\<bar>) (- 1022)"
  define m where "m = round_half_even (\<bar>q\<bar> / pow2 (e - 52))"
  have r: "r = sgn q * (of_int m * pow2 (e - 52))"
    using assms False by (simp add: rnd_def Let_def e_def m_def split: if_splits)
  have "0 \<le> e + 1022" by (simp add: e_def)
  then have "pow2 (e + 1022) = 2 ^ nat (e + 1022)" by (rule pow2_nat)
  moreover have "pow2 (e - 52) = pow2 (e + 1022) * pow2 (- 1074)" by (simp add: pow2_add[symmetric])
  ultimately have u: "pow2 (e - 52) = of_int (2 ^ nat (e + 1022)) * pow2 (- 1074)" by simp
  have s: "sgn q = of_int (if 0 < q then 1 else - 1)" using False by (simp add: sgn_if)
  show ?thesis
    by (intro exI[of _ "(if 0 < q then 1 else - 1) * (m * 2 ^ nat (e + 1022))"])
       (simp only: r s u of_int_mult mult.assoc)
qed

lemma rnd_sum_error:
  assumes "a = of_int i * pow2 (- 1074)" "t = of_int j * pow2 (- 1074)" "\<bar>a + t\<bar> \<le> pow2 1023"
  shows "\<exists>r. rnd (a + t) = Fin r \<and> \<bar>r - (a + t)\<bar> \<le> \<bar>a + t\<bar> / 9007199254740992"
proof (cases "pow2 (- 1022) \<le> \<bar>a + t\<bar>")
  case True
  from rnd_error[OF assms(3)] True show ?thesis by (auto simp: pow2_def)
next
  case False
  have q: "a + t = of_int (i + j) * pow2 (- 1074)" by (simp add: assms algebra_simps)
  have "pow2 (- 1022) = of_int (2 ^ 52) * pow2 (- 1074)"
    using pow2_add[of 52 "- 1074"] by (simp add: pow2_def)
  moreover have "\<bar>a + t\<bar> = of_int \<bar>i + j\<bar> * pow2 (- 1074)"
    using pow2_pos[of "- 1074"] by (simp add: q abs_mult)
  ultimately have "of_int \<bar>i + j\<bar> * pow2 (- 1074) < of_int (2 ^ 52) * pow2 (- 1074)"
    using False by simp
  then have "(of_int \<bar>i + j\<bar> :: rat) < of_int (2 ^ 52)"
    using pow2_pos[of "- 1074"] by (simp only: mult_less_cancel_right_pos)
  then have "\<bar>i + j\<bar> < 2 ^ 52" by (simp only: of_int_less_iff)
  then have "\<bar>i + j\<bar> < 2 ^ 53" by simp
  from rnd_exact[OF q this] have "rnd (a + t) = Fin (a + t)" by simp
  then show ?thesis by simp
qed

lemma plus_grid:
  assumes "x + y = Fin a"
  shows "\<exists>n. a = of_int n * pow2 (- 1074)"
proof -
  obtain p q where "x = Fin p" "y = Fin q" using assms by (cases x; cases y) simp_all
  then have "rnd (p + q) = Fin a" using assms by simp
  then show ?thesis by (rule rnd_grid)
qed

lemma divide_grid:
  assumes "x / y = Fin t"
  shows "\<exists>n. t = of_int n * pow2 (- 1074)"
proof -
  obtain p where x: "x = Fin p" using assms by (cases x; cases y) (simp_all split: if_splits)
  show ?thesis
  proof (cases y)
    case (Fin q)
    then have "rnd (p / q) = Fin t" using assms x by (simp split: if_splits)
    then show ?thesis by (rule rnd_grid)
  next
    case PInf
    then have "t = 0" using assms x by simp
    then show ?thesis by (intro exI[of _ 0]) simp
  next
    case NInf
    then have "t = 0" using assms x by simp
    then show ?thesis by (intro exI[of _ 0]) simp
  next
    case NaN
    then show ?thesis using assms x by simp
  qed
qed

lemma recentre:
  assumes a: "a = of_int i * pow2 (- 1074)" and t: "t = of_int j * pow2 (- 1074)"
    and r: "\<bar>a\<bar> + \<bar>t\<bar> \<le> pow2 1022"
  shows "\<exists>b. Fin t + (Fin a - Fin t) = Fin b \<and> \<bar>b - a\<bar> \<le> pow2 (- 51) * (\<bar>a\<bar> + \<bar>t\<bar>)"
proof -
  have p: "pow2 1023 = 2 * pow2 1022" using pow2_add[of 1 1022] by (simp add: pow2_def)
  have t': "- t = of_int (- j) * pow2 (- 1074)" by (simp add: t)
  have "\<bar>a + (- t)\<bar> \<le> pow2 1023" using r p pow2_pos[of 1022] by linarith
  from rnd_sum_error[OF a t' this] obtain o' where o: "rnd (a + - t) = Fin o'"
    "\<bar>o' - (a + - t)\<bar> \<le> \<bar>a + - t\<bar> / 9007199254740992" by auto
  from rnd_grid[OF o(1)] obtain k where k: "o' = of_int k * pow2 (- 1074)" by auto
  have d: "\<bar>a + - t\<bar> \<le> \<bar>a\<bar> + \<bar>t\<bar>" by linarith
  have A: "0 \<le> \<bar>a\<bar> + \<bar>t\<bar>" by simp
  define E where "E = (\<bar>a\<bar> + \<bar>t\<bar>) / 9007199254740992"
  have E: "0 \<le> E" "E \<le> \<bar>a\<bar> + \<bar>t\<bar>" by (simp_all add: E_def)
  have "\<bar>a + - t\<bar> / 9007199254740992 \<le> E" using d by (simp add: E_def)
  then have e1: "\<bar>o' - (a + - t)\<bar> \<le> E" using o(2) by linarith
  have "\<bar>t + o'\<bar> \<le> \<bar>a\<bar> + \<bar>o' - (a + - t)\<bar>" by linarith
  then have s: "\<bar>t + o'\<bar> \<le> \<bar>a\<bar> + E" using e1 by linarith
  then have "\<bar>t + o'\<bar> \<le> pow2 1023" using r p E by linarith
  from rnd_sum_error[OF t k this] obtain b where b: "rnd (t + o') = Fin b"
    "\<bar>b - (t + o')\<bar> \<le> \<bar>t + o'\<bar> / 9007199254740992" by auto
  have "\<bar>t + o'\<bar> / 9007199254740992 \<le> (\<bar>a\<bar> + E) / 9007199254740992"
    using s by (simp add: divide_right_mono)
  also have "\<dots> \<le> 2 * E" using E by (simp add: E_def)
  finally have e2: "\<bar>b - (t + o')\<bar> \<le> 2 * E" using b(2) by linarith
  have "\<bar>b - a\<bar> \<le> \<bar>b - (t + o')\<bar> + \<bar>o' - (a + - t)\<bar>" by linarith
  then have "\<bar>b - a\<bar> \<le> 3 * E" using e1 e2 by linarith
  then have "\<bar>b - a\<bar> \<le> 4 / 9007199254740992 * (\<bar>a\<bar> + \<bar>t\<bar>)" using A by (simp add: E_def)
  then have bound: "\<bar>b - a\<bar> \<le> pow2 (- 51) * (\<bar>a\<bar> + \<bar>t\<bar>)" by (simp add: pow2_def)
  have "rnd (a - t) = Fin o'" using o(1) by simp
  then have "Fin t + (Fin a - Fin t) = Fin b" by (simp add: minus_number_def b(1))
  then show ?thesis using bound by blast
qed

lemma wheel_width: "width (fst (wheel ev s)) = width s" "height (fst (wheel ev s)) = height s"
  using wheel_fst[of ev s] by (auto simp: wheel_viewport_def Let_def)

lemma wheel_offsetX:
  "offsetX (fst (wheel ev s)) =
     plane_x s (clientX ev - rect_left ev)
       - (clientX ev - rect_left ev - num (width s) / lit 2) * (lit 4 / num (width s))
           / zoom (fst (wheel ev s))"
  unfolding wheel_zoom using wheel_fst[of ev s] by (auto simp: wheel_viewport_def Let_def plane_x_def)

lemma wheel_offsetY:
  "offsetY (fst (wheel ev s)) =
     plane_y s (clientY ev - rect_top ev)
       - (clientY ev - rect_top ev - num (height s) / lit 2) * (lit 4 / num (height s))
           / zoom (fst (wheel ev s))"
  unfolding wheel_zoom using wheel_fst[of ev s] by (auto simp: wheel_viewport_def Let_def plane_y_def)

text \<open>The roundings met when the wheel zooms in at the corner of a canvas panned to \<open>offsetX = 3\<close>.\<close>

lemma wh_0: "rnd (818836295885545 / 4503599627370496) = Fin (818836295885545 / 4503599627370496)"
  using rnd_pos [of "818836295885545 / 4503599627370496" "-3" 6550690367084360] by (simp add: pow2_def)

lemma wh_1: "rnd (4503599627370497 / 4503599627370496) = Fin (4503599627370497 / 4503599627370496)"
  using rnd_pos [of "4503599627370497 / 4503599627370496" "0" 4503599627370497] by (simp add: pow2_def)

lemma wh_3: "rnd (2476979795053773 / 2251799813685248) = Fin (2476979795053773 / 2251799813685248)"
  using rnd_pos [of "2476979795053773 / 2251799813685248" "0" 4953959590107546] by (simp add: pow2_def)

lemma wh_4: "rnd (4503599627370496 / 2476979795053773) = Fin (8188362958855447 / 4503599627370496)"
  using rnd_pos [of "4503599627370496 / 2476979795053773" "0" 8188362958855447] by (simp add: pow2_def)

lemma wh_5: "rnd (12691962586225943 / 4503599627370496) = Fin (1586495323278243 / 562949953421312)"
  using rnd_pos [of "12691962586225943 / 4503599627370496" "1" 6345981293112972] by (simp add: pow2_def)

lemmas wh_values = wh_0 wh_1 rnd_1_1 wh_3 wh_4 wh_5

lemma panned_before:
  "plane_x ((initial 8 8)\<lparr>offsetX := lit 3\<rparr>) (clientX \<lparr>deltaY = - lit 1, clientX = lit 0, clientY = lit 0, rect_left = lit 0, rect_top = lit 0\<rparr> - rect_left \<lparr>deltaY = - lit 1, clientX = lit 0, clientY = lit 0, rect_left = lit 0, rect_top = lit 0\<rparr>) = Fin 1"
  "plane_y ((initial 8 8)\<lparr>offsetX := lit 3\<rparr>) (clientY \<lparr>deltaY = - lit 1, clientX = lit 0, clientY = lit 0, rect_left = lit 0, rect_top = lit 0\<rparr> - rect_top \<lparr>deltaY = - lit 1, clientX = lit 0, clientY = lit 0, rect_left = lit 0, rect_top = lit 0\<rparr>) = Fin (- 2)"
  by (simp_all add: plane_x_def plane_y_def initial_def number_simps hsl_values wh_values)

lemma panned_zoom: "zoom (fst (wheel \<lparr>deltaY = - lit 1, clientX = lit 0, clientY = lit 0, rect_left = lit 0, rect_top = lit 0\<rparr> ((initial 8 8)\<lparr>offsetX := lit 3\<rparr>))) = Fin (2476979795053773 / 2251799813685248)"
  by (simp add: wheel_zoom initial_def number_simps wh_values)

lemma panned_offset:
  "(clientX \<lparr>deltaY = - lit 1, clientX = lit 0, clientY = lit 0, rect_left = lit 0, rect_top = lit 0\<rparr> - rect_left \<lparr>deltaY = - lit 1, clientX = lit 0, clientY = lit 0, rect_left = lit 0, rect_top = lit 0\<rparr> - num (width ((initial 8 8)\<lparr>offsetX := lit 3\<rparr>)) / lit 2)
      * (lit 4 / num (width ((initial 8 8)\<lparr>offsetX := lit 3\<rparr>))) / Fin (2476979795053773 / 2251799813685248) = Fin (- (8188362958855447 / 4503599627370496))"
  "(clientY \<lparr>deltaY = - lit 1, clientX = lit 0, clientY = lit 0, rect_left = lit 0, rect_top = lit 0\<rparr> - rect_top \<lparr>deltaY = - lit 1, clientX = lit 0, clientY = lit 0, rect_left = lit 0, rect_top = lit 0\<rparr> - num (height ((initial 8 8)\<lparr>offsetX := lit 3\<rparr>)) / lit 2)
      * (lit 4 / num (height ((initial 8 8)\<lparr>offsetX := lit 3\<rparr>))) / Fin (2476979795053773 / 2251799813685248) = Fin (- (8188362958855447 / 4503599627370496))"
  by (simp_all add: initial_def number_simps hsl_values wh_values)

lemma panned_after:
  "plane_x (fst (wheel \<lparr>deltaY = - lit 1, clientX = lit 0, clientY = lit 0, rect_left = lit 0, rect_top = lit 0\<rparr> ((initial 8 8)\<lparr>offsetX := lit 3\<rparr>))) (clientX \<lparr>deltaY = - lit 1, clientX = lit 0, clientY = lit 0, rect_left = lit 0, rect_top = lit 0\<rparr> - rect_left \<lparr>deltaY = - lit 1, clientX = lit 0, clientY = lit 0, rect_left = lit 0, rect_top = lit 0\<rparr>) = Fin (4503599627370497 / 4503599627370496)"
  unfolding plane_x_def[of "fst (wheel ev s)" for ev s] wheel_width wheel_offsetX panned_zoom panned_before panned_offset
  by (simp add: number_simps wh_values)

section \<open>A point that escapes after eleven iterations\<close>

text \<open>
  The roundings met when a canvas of one pixel is rendered at the point \<open>0.3125\<close> of the
  real axis with a budget of \<open>3060\<close>: the point escapes after \<open>11\<close> iterations.
\<close>

lemma deep_0: "rnd (291409387653385 / 81064793292668928) = Fin (2072244534424071 / 576460752303423488)"
  using rnd_pos [of "291409387653385 / 81064793292668928" "-9" 8288978137696284] by (simp add: pow2_def)

lemma deep_1: "rnd (11 / 3060) = Fin (8288978137696285 / 2305843009213693952)"
  using rnd_pos [of "11 / 3060" "-9" 8288978137696285] by (simp add: pow2_def)

lemma deep_2: "rnd (6216733603272213 / 288230376151711744) = Fin (6216733603272213 / 288230376151711744)"
  using rnd_pos [of "6216733603272213 / 288230376151711744" "-6" 6216733603272213] by (simp add: pow2_def)

lemma deep_3: "rnd (24866934413088855 / 1152921504606846976) = Fin (3108366801636107 / 144115188075855872)"
  using rnd_pos [of "24866934413088855 / 1152921504606846976" "-6" 6216733603272214] by (simp add: pow2_def)

lemma deep_4: "rnd (3108366801636107 / 144115188075855872) = Fin (3108366801636107 / 144115188075855872)"
  using rnd_pos [of "3108366801636107 / 144115188075855872" "-6" 6216733603272214] by (simp add: pow2_def)

lemma deep_5: "rnd (25 / 256) = Fin (25 / 256)"
  using rnd_pos [of "25 / 256" "-4" 7036874417766400] by (simp add: pow2_def)

lemma deep_6: "rnd (11025 / 65536) = Fin (11025 / 65536)"
  using rnd_pos [of "11025 / 65536" "-3" 6061057848115200] by (simp add: pow2_def)

lemma deep_7: "rnd (992565025 / 4294967296) = Fin (992565025 / 4294967296)"
  using rnd_pos [of "992565025 / 4294967296" "-3" 8326238909235200] by (simp add: pow2_def)

lemma deep_8: "rnd (5451021630756713025 / 18446744073709551616) = Fin (5323263311285853 / 18014398509481984)"
  using rnd_pos [of "5451021630756713025 / 18446744073709551616" "-2" 5323263311285853] by (simp add: pow2_def)

lemma deep_9: "rnd (5323263311285853 / 18014398509481984) = Fin (5323263311285853 / 18014398509481984)"
  using rnd_pos [of "5323263311285853 / 18014398509481984" "-2" 5323263311285853] by (simp add: pow2_def)

lemma deep_10: "rnd (5 / 16) = Fin (5 / 16)"
  using rnd_pos [of "5 / 16" "-2" 5629499534213120] by (simp add: pow2_def)

lemma deep_11: "rnd (760325358266868323 / 2305843009213693952) = Fin (5940041861459909 / 18014398509481984)"
  using rnd_pos [of "760325358266868323 / 2305843009213693952" "-2" 5940041861459909] by (simp add: pow2_def)

lemma deep_12: "rnd (190081339566717081 / 576460752303423488) = Fin (5940041861459909 / 18014398509481984)"
  using rnd_pos [of "190081339566717081 / 576460752303423488" "-2" 5940041861459909] by (simp add: pow2_def)

lemma deep_13: "rnd (194225828635565223 / 576460752303423488) = Fin (6069557144861413 / 18014398509481984)"
  using rnd_pos [of "194225828635565223 / 576460752303423488" "-2" 6069557144861413] by (simp add: pow2_def)

lemma deep_14: "rnd (776903314542260893 / 2305843009213693952) = Fin (6069557144861413 / 18014398509481984)"
  using rnd_pos [of "776903314542260893 / 2305843009213693952" "-2" 6069557144861413] by (simp add: pow2_def)

lemma deep_15: "rnd (6659285009521661 / 18014398509481984) = Fin (6659285009521661 / 18014398509481984)"
  using rnd_pos [of "6659285009521661 / 18014398509481984" "-2" 6659285009521661] by (simp add: pow2_def)

lemma deep_16: "rnd (7497688371858921124364978316049 / 20282409603651670423947251286016) = Fin (6659285009521661 / 18014398509481984)"
  using rnd_pos [of "7497688371858921124364978316049 / 20282409603651670423947251286016" "-2" 6659285009521661] by (simp add: pow2_def)

lemma deep_17: "rnd (105 / 256) = Fin (105 / 256)"
  using rnd_pos [of "105 / 256" "-2" 7388718138654720] by (simp add: pow2_def)

lemma deep_18: "rnd (4191486756631025 / 9007199254740992) = Fin (4191486756631025 / 9007199254740992)"
  using rnd_pos [of "4191486756631025 / 9007199254740992" "-2" 8382973513262050] by (simp add: pow2_def)

lemma deep_19: "rnd (9438389097645926566409436353025 / 20282409603651670423947251286016) = Fin (4191486756631025 / 9007199254740992)"
  using rnd_pos [of "9438389097645926566409436353025 / 20282409603651670423947251286016" "-2" 8382973513262050] by (simp add: pow2_def)

lemma deep_20: "rnd (31505 / 65536) = Fin (31505 / 65536)"
  using rnd_pos [of "31505 / 65536" "-2" 8660028458270720] by (simp add: pow2_def)

lemma deep_21: "rnd (2334742305 / 4294967296) = Fin (2334742305 / 4294967296)"
  using rnd_pos [of "2334742305 / 4294967296" "-1" 4896309494415360] by (simp add: pow2_def)

lemma deep_22: "rnd (1362447660983993 / 2251799813685248) = Fin (1362447660983993 / 2251799813685248)"
  using rnd_pos [of "1362447660983993 / 2251799813685248" "-1" 5449790643935972] by (simp add: pow2_def)

lemma deep_23: "rnd (49087350226554519461177941632225 / 81129638414606681695789005144064) = Fin (1362447660983993 / 2251799813685248)"
  using rnd_pos [of "49087350226554519461177941632225 / 81129638414606681695789005144064" "-1" 5449790643935972] by (simp add: pow2_def)

lemma deep_24: "rnd (10952762845498973 / 18014398509481984) = Fin (2738190711374743 / 4503599627370496)"
  using rnd_pos [of "10952762845498973 / 18014398509481984" "-1" 5476381422749486] by (simp add: pow2_def)

lemma deep_25: "rnd (5 / 8) = Fin (5 / 8)"
  using rnd_pos [of "5 / 8" "-1" 5629499534213120] by (simp add: pow2_def)

lemma deep_26: "rnd (12074356648022075 / 18014398509481984) = Fin (3018589162005519 / 4503599627370496)"
  using rnd_pos [of "12074356648022075 / 18014398509481984" "-1" 6037178324011038] by (simp add: pow2_def)

lemma deep_27: "rnd (12288784543734781 / 18014398509481984) = Fin (3072196135933695 / 4503599627370496)"
  using rnd_pos [of "12288784543734781 / 18014398509481984" "-1" 6144392271867390] by (simp add: pow2_def)

lemma deep_28: "rnd (7006236523737585 / 9007199254740992) = Fin (7006236523737585 / 9007199254740992)"
  using rnd_pos [of "7006236523737585 / 9007199254740992" "-1" 7006236523737585] by (simp add: pow2_def)

lemma deep_29: "rnd (105 / 128) = Fin (105 / 128)"
  using rnd_pos [of "105 / 128" "-1" 7388718138654720] by (simp add: pow2_def)

lemma deep_30: "rnd (4268914262859691486657694560689 / 5070602400912917605986812821504) = Fin (1895778761911023 / 2251799813685248)"
  using rnd_pos [of "4268914262859691486657694560689 / 5070602400912917605986812821504" "-1" 7583115047644092] by (simp add: pow2_def)

lemma deep_31: "rnd (1895778761911023 / 2251799813685248) = Fin (1895778761911023 / 2251799813685248)"
  using rnd_pos [of "1895778761911023 / 2251799813685248" "-1" 7583115047644092] by (simp add: pow2_def)

lemma deep_32: "rnd (2066135102760633 / 2251799813685248) = Fin (2066135102760633 / 2251799813685248)"
  using rnd_pos [of "2066135102760633 / 2251799813685248" "-1" 8264540411042532] by (simp add: pow2_def)

lemma deep_33: "rnd (31505 / 32768) = Fin (31505 / 32768)"
  using rnd_pos [of "31505 / 32768" "-1" 8660028458270720] by (simp add: pow2_def)

lemma deep_34: "rnd (2334742305 / 2147483648) = Fin (2334742305 / 2147483648)"
  using rnd_pos [of "2334742305 / 2147483648" "0" 4896309494415360] by (simp add: pow2_def)

lemma deep_35: "rnd (2599466203687663 / 2251799813685248) = Fin (2599466203687663 / 2251799813685248)"
  using rnd_pos [of "2599466203687663 / 2251799813685248" "0" 5198932407375326] by (simp add: pow2_def)

lemma deep_36: "rnd (2738190711374743 / 2251799813685248) = Fin (2738190711374743 / 2251799813685248)"
  using rnd_pos [of "2738190711374743 / 2251799813685248" "0" 5476381422749486] by (simp add: pow2_def)

lemma deep_37: "rnd (373004016196332825 / 288230376151711744) = Fin (1457046938266925 / 1125899906842624)"
  using rnd_pos [of "373004016196332825 / 288230376151711744" "0" 5828187753067700] by (simp add: pow2_def)

lemma deep_38: "rnd (6001621017150383 / 4503599627370496) = Fin (6001621017150383 / 4503599627370496)"
  using rnd_pos [of "6001621017150383 / 4503599627370496" "0" 6001621017150383] by (simp add: pow2_def)

lemma deep_39: "rnd (6757224544114350664580058401569 / 5070602400912917605986812821504) = Fin (6001621017150383 / 4503599627370496)"
  using rnd_pos [of "6757224544114350664580058401569 / 5070602400912917605986812821504" "0" 6001621017150383] by (simp add: pow2_def)

lemma deep_40: "rnd (3072196135933695 / 2251799813685248) = Fin (3072196135933695 / 2251799813685248)"
  using rnd_pos [of "3072196135933695 / 2251799813685248" "0" 6144392271867390] by (simp add: pow2_def)

lemma deep_41: "rnd (7006236523737585 / 4503599627370496) = Fin (7006236523737585 / 4503599627370496)"
  using rnd_pos [of "7006236523737585 / 4503599627370496" "0" 7006236523737585] by (simp add: pow2_def)

lemma deep_42: "rnd (7408995900703663 / 4503599627370496) = Fin (7408995900703663 / 4503599627370496)"
  using rnd_pos [of "7408995900703663 / 4503599627370496" "0" 7408995900703663] by (simp add: pow2_def)

lemma deep_43: "rnd (2066135102760633 / 1125899906842624) = Fin (2066135102760633 / 1125899906842624)"
  using rnd_pos [of "2066135102760633 / 1125899906842624" "0" 8264540411042532] by (simp add: pow2_def)

lemma deep_44: "rnd (2599466203687663 / 1125899906842624) = Fin (2599466203687663 / 1125899906842624)"
  using rnd_pos [of "2599466203687663 / 1125899906842624" "1" 5198932407375326] by (simp add: pow2_def)

lemma deep_45: "rnd (37 / 16) = Fin (37 / 16)"
  using rnd_pos [of "37 / 16" "1" 5207287069147136] by (simp add: pow2_def)

lemma deep_46: "rnd (3047185851237293 / 1125899906842624) = Fin (3047185851237293 / 1125899906842624)"
  using rnd_pos [of "3047185851237293 / 1125899906842624" "1" 6094371702474586] by (simp add: pow2_def)

lemma deep_47: "rnd (54893220256643682564458541617569 / 20282409603651670423947251286016) = Fin (3047185851237293 / 1125899906842624)"
  using rnd_pos [of "54893220256643682564458541617569 / 20282409603651670423947251286016" "1" 6094371702474586] by (simp add: pow2_def)

lemma deep_48: "rnd (3399029572125613 / 1125899906842624) = Fin (3399029572125613 / 1125899906842624)"
  using rnd_pos [of "3399029572125613 / 1125899906842624" "1" 6798059144251226] by (simp add: pow2_def)

lemma deep_49: "rnd (7408995900703663 / 2251799813685248) = Fin (7408995900703663 / 2251799813685248)"
  using rnd_pos [of "7408995900703663 / 2251799813685248" "1" 7408995900703663] by (simp add: pow2_def)

lemma deep_50: "rnd (1585267068834414315 / 288230376151711744) = Fin (6192449487634431 / 1125899906842624)"
  using rnd_pos [of "1585267068834414315 / 288230376151711744" "2" 6192449487634431] by (simp add: pow2_def)

lemma deep_51: "rnd (792633534417207285 / 144115188075855872) = Fin (11 / 2)"
  using rnd_pos [of "792633534417207285 / 144115188075855872" "2" 6192449487634432] by (simp add: pow2_def)

lemma deep_52: "rnd (2565370589776445 / 281474976710656) = Fin (2565370589776445 / 281474976710656)"
  using rnd_pos [of "2565370589776445 / 281474976710656" "3" 5130741179552890] by (simp add: pow2_def)

lemma deep_53: "rnd (11553402032184427787271050625769 / 1267650600228229401496703205376) = Fin (2565370589776445 / 281474976710656)"
  using rnd_pos [of "11553402032184427787271050625769 / 1267650600228229401496703205376" "3" 5130741179552890] by (simp add: pow2_def)

lemmas deep_values = deep_0 deep_1 deep_2 deep_3 deep_4 deep_5 deep_6 deep_7 deep_8 deep_9 deep_10 deep_11 deep_12 deep_13 deep_14 deep_15 deep_16 deep_17 deep_18 deep_19 deep_20 deep_21 deep_22 deep_23 deep_24 deep_25 deep_26 deep_27 deep_28 deep_29 deep_30 deep_31 deep_32 deep_33 deep_34 deep_35 deep_36 deep_37 deep_38 deep_39 deep_40 deep_41 deep_42 deep_43 deep_44 deep_45 deep_46 deep_47 deep_48 deep_49 deep_50 deep_51 deep_52 deep_53

lemma deep_x0: "pixel_x0 ((initial 1 1)\<lparr>maxIterations := 3060, offsetX := lit 2.3125, offsetY := lit 2\<rparr>) 0 = Fin (5 / 16)"
  by (simp add: pixel_x0_def initial_def number_simps hsl_values px_values deep_values)

lemma deep_y0: "pixel_y0 ((initial 1 1)\<lparr>maxIterations := 3060, offsetX := lit 2.3125, offsetY := lit 2\<rparr>) 0 = Fin 0"
  by (simp add: pixel_y0_def initial_def number_simps hsl_values px_values deep_values)

lemma deep_iterations: "iterations (Fin (5 / 16)) (Fin 0) 3060 = 11"
  by (simp add: iterations_def escape_loop_continue escape_loop_stop number_simps hsl_values
      px_values deep_values)

lemma deep_hue: "colorValue 3060 11 / lit 360 = Fin (2072244534424071 / 576460752303423488)"
  by (simp add: colorValue_def number_simps hsl_values px_values deep_values)

lemma deep_colour:
  "hslToRgb (Fin (2072244534424071 / 576460752303423488)) (lit 1) (lit 0.5) = (Fin 255, Fin 5, Fin 0)"
  by (simp add: hslToRgb_def hue2rgb_def Let_def number_simps hsl_values px_values deep_values
      floor_eq_iff)

lemma deep_ratio: "inum 11 / inum 3060 = Fin (8288978137696285 / 2305843009213693952)"
  by (simp add: number_simps hsl_values px_values deep_values)

lemma deep_ratio_colour:
  "hslToRgb (Fin (8288978137696285 / 2305843009213693952)) (lit 1) (lit 0.5) = (Fin 255, Fin 6, Fin 0)"
  by (simp add: hslToRgb_def hue2rgb_def Let_def number_simps hsl_values px_values deep_values
      floor_eq_iff)

lemma deep_rgb: "pixel_rgb ((initial 1 1)\<lparr>maxIterations := 3060, offsetX := lit 2.3125, offsetY := lit 2\<rparr>) 0 0 = (Fin 255, Fin 5, Fin 0)"
proof -
  have m: "maxIterations ((initial 1 1)\<lparr>maxIterations := 3060, offsetX := lit 2.3125, offsetY := lit 2\<rparr>) = 3060" by simp
  show ?thesis
    unfolding pixel_rgb_def m deep_x0 deep_y0 deep_iterations Let_def deep_hue deep_colour ..
qed

lemma deep_bytes:
  "bytes (Fin 255, Fin 5, Fin 0) = [255, 5, 0, 255]"
  "bytes (Fin 255, Fin 6, Fin 0) = [255, 6, 0, 255]"
  by (simp_all add: bytes_def number_simps round_half_even_def)

lemma deep_render:
  "generateMandelbrot ((initial 1 1)\<lparr>maxIterations := 3060, offsetX := lit 2.3125, offsetY := lit 2\<rparr>)
     = Inr (((initial 1 1)\<lparr>maxIterations := 3060, offsetX := lit 2.3125, offsetY := lit 2\<rparr>)\<lparr>canvas := [255, 5, 0, 255]\<rparr>)"
proof -
  have h: "height ((initial 1 1)\<lparr>maxIterations := 3060, offsetX := lit 2.3125, offsetY := lit 2\<rparr>) = 1" by (simp add: initial_def)
  have i: "image ((initial 1 1)\<lparr>maxIterations := 3060, offsetX := lit 2.3125, offsetY := lit 2\<rparr>) 1 = row ((initial 1 1)\<lparr>maxIterations := 3060, offsetX := lit 2.3125, offsetY := lit 2\<rparr>) 1 0"
    by (simp add: image_def initial_def)
  have r: "row ((initial 1 1)\<lparr>maxIterations := 3060, offsetX := lit 2.3125, offsetY := lit 2\<rparr>) 1 0 = bytes (pixel_rgb ((initial 1 1)\<lparr>maxIterations := 3060, offsetX := lit 2.3125, offsetY := lit 2\<rparr>) 0 0)" by (simp add: row_def)
  have "generateMandelbrot ((initial 1 1)\<lparr>maxIterations := 3060, offsetX := lit 2.3125, offsetY := lit 2\<rparr>)
        = Inr (((initial 1 1)\<lparr>maxIterations := 3060, offsetX := lit 2.3125, offsetY := lit 2\<rparr>)\<lparr>canvas := image ((initial 1 1)\<lparr>maxIterations := 3060, offsetX := lit 2.3125, offsetY := lit 2\<rparr>) (height ((initial 1 1)\<lparr>maxIterations := 3060, offsetX := lit 2.3125, offsetY := lit 2\<rparr>))\<rparr>)"
    by (simp add: generateMandelbrot_image initial_def)
  then show ?thesis unfolding h i r deep_rgb deep_bytes .
qed

section \<open>The colour mapper on the primary hues\<close>

text \<open>
  C5: the colour mapper turns hue \<open>0\<close> into red \<open>(255, 0, 0)\<close>, hue \<open>1/3\<close> into green
  \<open>(0, 255, 0)\<close> and hue \<open>2/3\<close> into blue \<open>(0, 0, 255)\<close>, at saturation \<open>1\<close> and lightness
  \<open>0.5\<close>. The hues are the numbers the expressions \<^verbatim>\<open>1/3\<close> and \<^verbatim>\<open>2/3\<close> evaluate to.
\<close>

theorem hslToRgb_primaries:
  "hslToRgb (lit 0) (lit 1) (lit 0.5) = (Fin 255, Fin 0, Fin 0) \<and>
   hslToRgb (lit 1 / lit 3) (lit 1) (lit 0.5) = (Fin 0, Fin 255, Fin 0) \<and>
   hslToRgb (lit 2 / lit 3) (lit 1) (lit 0.5) = (Fin 0, Fin 0, Fin 255)"
  by (simp add: hslToRgb_def hue2rgb_def Let_def number_simps hsl_values floor_eq_iff)

section \<open>The escape-time recurrence\<close>

text \<open>
  C3: the iteration count that the render computes for a pixel is the result of the
  reference recurrence: the while loop that starts from \<open>x = 0\<close>, \<open>y = 0\<close>,
  \<open>iteration = 0\<close>, tests \<open>x\<^sup>2 + y\<^sup>2 \<le> 4\<close> and \<open>iteration < iterationBudget\<close> before each
  step, and steps to \<open>(x\<^sup>2 - y\<^sup>2 + x0, 2xy + y0, iteration + 1)\<close>, terminates, and the
  value of \<open>iteration\<close> it ends with is the count of the render.
\<close>

theorem iterations_reference:
  "reference_count (pixel_x0 s px) (pixel_y0 s py) (maxIterations s)
     = Some (iterations (pixel_x0 s px) (pixel_y0 s py) (maxIterations s))"
  by (simp add: reference_count_def escape_loop_while iterations_def split: prod.splits)

section \<open>The pixel-to-plane mapping\<close>

text \<open>
  C2: for every pixel \<open>(px, py)\<close> of the canvas, the point at which the render runs the
  escape loop is \<open>x0 = (px - width/2) * (4/width) / zoom + offsetX\<close>,
  \<open>y0 = (py - height/2) * (4/height) / zoom + offsetY\<close>: the four bytes of the pixel in
  the rendered image are the colour of the iteration count at that point.
\<close>

theorem pixel_coordinates:
  assumes "generateMandelbrot s = Inr s'" "px < width s" "py < height s"
  shows "rgba (canvas s') (width s) px py =
     bytes (hslToRgb
       (colorValue (maxIterations s)
          (iterations
             ((num px - num (width s) / lit 2) * (lit 4 / num (width s)) / zoom s + offsetX s)
             ((num py - num (height s) / lit 2) * (lit 4 / num (height s)) / zoom s + offsetY s)
             (maxIterations s)) / lit 360)
       (lit 1) (lit 0.5))"
proof -
  have "canvas s' = image s (height s)"
    using assms by (auto simp: generateMandelbrot_image split: if_splits)
  then show ?thesis
    using rgba_image[OF assms(2,3)] by (simp add: pixel_rgb_def pixel_x0_def pixel_y0_def)
qed

theorem pixel_coordinates_witness:
  "generateMandelbrot (initial 1 1) = Inr ((initial 1 1)\<lparr>canvas := [255, 15, 0, 255]\<rparr>) \<and>
   (0::nat) < width (initial 1 1) \<and> (0::nat) < height (initial 1 1) \<and>
   rgba [255, 15, 0, 255] 1 0 0 =
     bytes (hslToRgb (colorValue 100 (iterations (Fin (- (5 / 2))) (Fin (- 2)) 100) / lit 360) (lit 1) (lit 0.5))"
  using pixel_coordinates[OF initial_render, of 0 0] initial_render
  by (simp add: initial_def number_simps hsl_values px_values)

section \<open>Rendering with a budget of zero or less\<close>

text \<open>
  C1, as the code has it: the render has no configuration error and never looks at the
  sign of the iteration budget. With a budget of zero or less it returns the image whose
  every pixel is opaque red \<open>(255, 0, 0, 255)\<close>; its only failure is the
  \<^verbatim>\<open>IndexSizeError\<close> of the canvas context when the width or the height is zero, raised
  before any pixel is computed.
\<close>

theorem render_without_budget:
  "(width s = 0 \<or> height s = 0 \<longrightarrow> generateMandelbrot s = Inl IndexSizeError) \<and>
   (maxIterations s \<le> 0 \<and> 0 < width s \<and> 0 < height s \<longrightarrow>
      generateMandelbrot s
        = Inr (s\<lparr>canvas := concat (replicate (width s * height s) [255, 0, 0, 255])\<rparr>))"
  by (simp add: generateMandelbrot_image image_nonpositive)

theorem render_without_budget_witness:
  "width ((initial 0 3)\<lparr>maxIterations := - 3\<rparr>) = 0 \<and>
   generateMandelbrot ((initial 0 3)\<lparr>maxIterations := - 3\<rparr>) = Inl IndexSizeError \<and>
   maxIterations ((initial 2 1)\<lparr>maxIterations := - 3\<rparr>) \<le> 0 \<and>
   0 < width ((initial 2 1)\<lparr>maxIterations := - 3\<rparr>) \<and>
   0 < height ((initial 2 1)\<lparr>maxIterations := - 3\<rparr>) \<and>
   generateMandelbrot ((initial 2 1)\<lparr>maxIterations := - 3\<rparr>)
     = Inr ((initial 2 1)\<lparr>maxIterations := - 3, canvas := [255, 0, 0, 255, 255, 0, 0, 255]\<rparr>)"
  using render_without_budget[of "(initial 0 3)\<lparr>maxIterations := - 3\<rparr>"]
    render_without_budget[of "(initial 2 1)\<lparr>maxIterations := - 3\<rparr>"]
  by (simp add: initial_def numeral_2_eq_2)

text \<open>
  C1 as stated fails: with a budget of zero on a canvas of one pixel the render returns
  an image instead of an error.
\<close>

theorem zero_budget_renders:
  "generateMandelbrot ((initial 1 1)\<lparr>maxIterations := 0\<rparr>)
     = Inr ((initial 1 1)\<lparr>maxIterations := 0, canvas := [255, 0, 0, 255]\<rparr>)"
  using render_nonpositive[of "(initial 1 1)\<lparr>maxIterations := 0\<rparr>"]
  by (simp add: initial_def)

text \<open>
  C10, as the code has it: with \<open>maxIterations = 0\<close>, on a canvas of non-zero width and
  height, the render raises no error: the escape loop of every pixel runs zero times, the
  iteration count \<open>0\<close> equals \<open>maxIterations\<close>, the hue is the sentinel \<open>0\<close>, whose colour
  is \<open>(255, 0, 0)\<close>, and the image is uniform, every pixel \<open>(255, 0, 0, 255)\<close>.
\<close>

theorem zero_iterations_uniform:
  assumes "maxIterations s = 0" "0 < width s" "0 < height s"
  shows "escape_loop x0 y0 (maxIterations s) (lit 0, lit 0, 0) = (lit 0, lit 0, 0) \<and>
         colorValue (maxIterations s) 0 = lit 0 \<and>
         hslToRgb (lit 0 / lit 360) (lit 1) (lit 0.5) = (Fin 255, Fin 0, Fin 0) \<and>
         generateMandelbrot s
           = Inr (s\<lparr>canvas := concat (replicate (width s * height s) [255, 0, 0, 255])\<rparr>)"
  using assms hslToRgb_red
  by (simp add: escape_loop_stop colorValue_def render_nonpositive number_simps)

theorem zero_iterations_uniform_witness:
  "maxIterations ((initial 1 2)\<lparr>maxIterations := 0\<rparr>) = 0 \<and>
   0 < width ((initial 1 2)\<lparr>maxIterations := 0\<rparr>) \<and>
   0 < height ((initial 1 2)\<lparr>maxIterations := 0\<rparr>) \<and>
   generateMandelbrot ((initial 1 2)\<lparr>maxIterations := 0\<rparr>)
     = Inr ((initial 1 2)\<lparr>maxIterations := 0, canvas := [255, 0, 0, 255, 255, 0, 0, 255]\<rparr>)"
  using zero_iterations_uniform[of "(initial 1 2)\<lparr>maxIterations := 0\<rparr>"]
  by (simp add: initial_def numeral_2_eq_2)

text \<open>
  C10 as stated fails on a canvas without pixels: with \<open>maxIterations = 0\<close> and a width
  of zero the render raises the \<^verbatim>\<open>IndexSizeError\<close> of the canvas context.
\<close>

theorem zero_budget_empty_canvas:
  "generateMandelbrot ((initial 0 3)\<lparr>maxIterations := 0\<rparr>) = Inl IndexSizeError"
  by (simp add: generateMandelbrot_image initial_def)

section \<open>Determinism of the render\<close>

text \<open>
  C6: the image that the render produces depends on the viewport and the dimensions
  only, not on what the canvas showed before, and the render changes nothing but the
  canvas; so a second render after the first produces the same bytes.
\<close>

theorem render_deterministic:
  "generateMandelbrot (s\<lparr>canvas := c\<rparr>) = generateMandelbrot s \<and>
   (generateMandelbrot s = Inr s' \<longrightarrow> generateMandelbrot s' = Inr s')"
  by (auto simp add: generateMandelbrot_image image_canvas)

theorem render_deterministic_witness:
  "generateMandelbrot (initial 1 1) = Inr ((initial 1 1)\<lparr>canvas := [255, 15, 0, 255]\<rparr>) \<and>
   generateMandelbrot ((initial 1 1)\<lparr>canvas := [255, 15, 0, 255]\<rparr>)
     = Inr ((initial 1 1)\<lparr>canvas := [255, 15, 0, 255]\<rparr>)"
  using render_deterministic[where s = "initial 1 1" and c = "[]"
      and s' = "(initial 1 1)\<lparr>canvas := [255, 15, 0, 255]\<rparr>"] initial_render
  by blast

section \<open>The colour of a pixel\<close>

text \<open>
  C4, as the code has it: the colour written for a pixel is \<^verbatim>\<open>hslToRgb\<close> at saturation
  \<open>1\<close> and lightness \<open>0.5\<close>, at hue \<open>0\<close> when the iteration count equals the budget and
  otherwise at the hue that the code computes, the binary64 value of
  \<open>((count / budget) * 360) / 360\<close>, which need not be that of \<open>count / budget\<close>; the alpha
  byte written is \<open>255\<close>. With a budget below \<open>2 ^ 53\<close> the three numbers that
  \<^verbatim>\<open>hslToRgb\<close> returns are integers from \<open>0\<close> to \<open>255\<close>, so the bytes stored are these
  numbers themselves.
\<close>

theorem pixel_colour:
  assumes "generateMandelbrot s = Inr s'" "px < width s" "py < height s"
  shows "let n = iterations (pixel_x0 s px) (pixel_y0 s py) (maxIterations s);
             hue = (if n = maxIterations s then lit 0 else inum n / inum (maxIterations s) * lit 360) / lit 360
         in rgba (canvas s') (width s) px py =
              (case hslToRgb hue (lit 1) (lit 0.5) of
                 (r, g, b) \<Rightarrow> [toUint8Clamp r, toUint8Clamp g, toUint8Clamp b, 255]) \<and>
            (maxIterations s < 2 ^ 53 \<longrightarrow>
               (\<exists>r g b. hslToRgb hue (lit 1) (lit 0.5) = (num r, num g, num b) \<and>
                  r \<le> 255 \<and> g \<le> 255 \<and> b \<le> 255 \<and>
                  rgba (canvas s') (width s) px py = [of_nat r, of_nat g, of_nat b, 255]))"
proof -
  define n where "n = iterations (pixel_x0 s px) (pixel_y0 s py) (maxIterations s)"
  define hue where "hue = colorValue (maxIterations s) n / lit 360"
  have "canvas s' = image s (height s)"
    using assms by (auto simp: generateMandelbrot_image split: if_splits)
  then have px: "rgba (canvas s') (width s) px py = bytes (hslToRgb hue (lit 1) (lit 0.5))"
    using rgba_image[OF assms(2,3)] by (simp add: pixel_rgb_def hue_def n_def)
  have ex: "\<exists>r g b. hslToRgb hue (lit 1) (lit 0.5) = (num r, num g, num b) \<and>
                  r \<le> 255 \<and> g \<le> 255 \<and> b \<le> 255 \<and>
                  bytes (num r, num g, num b) = [of_nat r, of_nat g, of_nat b, 255]"
    if small: "maxIterations s < 2 ^ 53"
  proof -
    have "\<exists>a. hue = Fin a \<and> 0 \<le> a \<and> a \<le> 1"
    proof (cases "maxIterations s \<le> 0")
      case True
      then have "n = 0" by (simp add: n_def iterations_nonpositive)
      then show ?thesis using hue_nonpositive[OF True] by (simp add: hue_def)
    next
      case False
      then have N: "1 \<le> maxIterations s" by simp
      have b: "1 \<le> n" "n \<le> maxIterations s" using iterations_first[OF N] by (simp_all add: n_def)
      show ?thesis
      proof (cases "n = maxIterations s")
        case True
        then show ?thesis by (simp add: hue_def colorValue_def number_simps)
      next
        case False
        then have "n < maxIterations s" using b by simp
        from hue_unit(1)[OF _ this small] b show ?thesis by (simp add: hue_def)
      qed
    qed
    then obtain a where a: "hue = Fin a" "0 \<le> a" "a \<le> 1" by auto
    show ?thesis unfolding a(1) using hslToRgb_unit[OF a(2,3)] .
  qed
  have px': "rgba (canvas s') (width s) px py =
              (case hslToRgb hue (lit 1) (lit 0.5) of
                 (r, g, b) \<Rightarrow> [toUint8Clamp r, toUint8Clamp g, toUint8Clamp b, 255])"
    using px by (simp only: bytes_alpha)
  have ex': "\<exists>r g b. hslToRgb hue (lit 1) (lit 0.5) = (num r, num g, num b) \<and>
                  r \<le> 255 \<and> g \<le> 255 \<and> b \<le> 255 \<and>
                  rgba (canvas s') (width s) px py = [of_nat r, of_nat g, of_nat b, 255]"
    if "maxIterations s < 2 ^ 53"
  proof -
    from ex[OF that] obtain r g b where c: "hslToRgb hue (lit 1) (lit 0.5) = (num r, num g, num b)"
      "r \<le> 255" "g \<le> 255" "b \<le> 255"
      "bytes (num r, num g, num b) = [of_nat r, of_nat g, of_nat b, 255]" by blast
    have "rgba (canvas s') (width s) px py = [of_nat r, of_nat g, of_nat b, 255]"
      using px c(5) by (simp only: c(1))
    then show ?thesis using c(1-4) by blast
  qed
  have "rgba (canvas s') (width s) px py =
              (case hslToRgb hue (lit 1) (lit 0.5) of
                 (r, g, b) \<Rightarrow> [toUint8Clamp r, toUint8Clamp g, toUint8Clamp b, 255]) \<and>
            (maxIterations s < 2 ^ 53 \<longrightarrow>
               (\<exists>r g b. hslToRgb hue (lit 1) (lit 0.5) = (num r, num g, num b) \<and>
                  r \<le> 255 \<and> g \<le> 255 \<and> b \<le> 255 \<and>
                  rgba (canvas s') (width s) px py = [of_nat r, of_nat g, of_nat b, 255]))"
    using px' ex' by blast
  then show ?thesis unfolding Let_def hue_def n_def colorValue_def .
qed

theorem pixel_colour_witness:
  "generateMandelbrot (initial 1 1) = Inr ((initial 1 1)\<lparr>canvas := [255, 15, 0, 255]\<rparr>) \<and>
   (0::nat) < width (initial 1 1) \<and> (0::nat) < height (initial 1 1) \<and>
   maxIterations (initial 1 1) < 2 ^ 53 \<and>
   hslToRgb (inum 1 / inum 100 * lit 360 / lit 360) (lit 1) (lit 0.5) = (Fin 255, Fin 15, Fin 0) \<and>
   rgba [255, 15, 0, 255] 1 0 0 = [toUint8Clamp (Fin 255), toUint8Clamp (Fin 15), toUint8Clamp (Fin 0), 255] \<and>
   (\<exists>r g b. (Fin 255, Fin 15, Fin 0) = (num r, num g, num b) \<and>
      r \<le> 255 \<and> g \<le> 255 \<and> b \<le> 255 \<and>
      rgba [255, 15, 0, 255] 1 0 0 = [of_nat r, of_nat g, of_nat b, 255])"
proof -
  have m: "maxIterations (initial 1 1) = 100" by (simp add: initial_def)
  have i: "iterations (pixel_x0 (initial 1 1) 0) (pixel_y0 (initial 1 1) 0) 100 = 1"
    unfolding initial_x0 initial_y0 by (rule initial_iterations)
  have c: "hslToRgb (inum 1 / inum 100 * lit 360 / lit 360) (lit 1) (lit 0.5) = (Fin 255, Fin 15, Fin 0)"
    using initial_hue initial_colour by (simp add: colorValue_def)
  have w: "width (initial 1 1) = 1" "height (initial 1 1) = 1" by (simp_all add: initial_def)
  have k: "canvas ((initial 1 1)\<lparr>canvas := [255, 15, 0, 255]\<rparr>) = [255, 15, 0, 255]" by simp
  have e: "((1::int) = 100) = False" by simp
  have lt: "(100::int) < 2 ^ 53" by simp
  have p: "(0::nat) < width (initial 1 1)" "(0::nat) < height (initial 1 1)" unfolding w by simp_all
  have q: "maxIterations (initial 1 1) < 2 ^ 53" unfolding m by (rule lt)
  note t = pixel_colour[OF initial_render p, unfolded Let_def m i w k e if_False c prod.case]
  from t lt have "(\<exists>r g b. (Fin 255, Fin 15, Fin 0) = (num r, num g, num b) \<and>
      r \<le> 255 \<and> g \<le> 255 \<and> b \<le> 255 \<and>
      rgba [255, 15, 0, 255] 1 0 0 = [of_nat r, of_nat g, of_nat b, 255])" by blast
  moreover from t have "rgba [255, 15, 0, 255] 1 0 0
      = [toUint8Clamp (Fin 255), toUint8Clamp (Fin 15), toUint8Clamp (Fin 0), 255]" by blast
  ultimately show ?thesis using initial_render p q c by blast
qed

text \<open>
  C4 as stated fails where it gives the hue as \<open>count / budget\<close>: with a budget of
  \<open>3060\<close>, the pixel at the point \<open>0.3125\<close> of the real axis has the count \<open>11\<close> and is
  written \<open>(255, 5, 0, 255)\<close>, while \<^verbatim>\<open>hslToRgb\<close> at the hue \<open>11 / 3060\<close> is
  \<open>(255, 6, 0)\<close>.
\<close>

theorem hue_is_not_the_ratio:
  "generateMandelbrot ((initial 1 1)\<lparr>maxIterations := 3060, offsetX := lit 2.3125, offsetY := lit 2\<rparr>)
     = Inr (((initial 1 1)\<lparr>maxIterations := 3060, offsetX := lit 2.3125, offsetY := lit 2\<rparr>)\<lparr>canvas := [255, 5, 0, 255]\<rparr>) \<and>
   iterations (pixel_x0 ((initial 1 1)\<lparr>maxIterations := 3060, offsetX := lit 2.3125, offsetY := lit 2\<rparr>) 0) (pixel_y0 ((initial 1 1)\<lparr>maxIterations := 3060, offsetX := lit 2.3125, offsetY := lit 2\<rparr>) 0) 3060 = 11 \<and>
   bytes (hslToRgb (inum 11 / inum 3060) (lit 1) (lit 0.5)) = [255, 6, 0, 255]"
proof -
  have "iterations (pixel_x0 ((initial 1 1)\<lparr>maxIterations := 3060, offsetX := lit 2.3125, offsetY := lit 2\<rparr>) 0) (pixel_y0 ((initial 1 1)\<lparr>maxIterations := 3060, offsetX := lit 2.3125, offsetY := lit 2\<rparr>) 0) 3060 = 11"
    unfolding deep_x0 deep_y0 by (rule deep_iterations)
  moreover have "bytes (hslToRgb (inum 11 / inum 3060) (lit 1) (lit 0.5)) = [255, 6, 0, 255]"
    unfolding deep_ratio deep_ratio_colour by (rule deep_bytes(2))
  ultimately show ?thesis using deep_render by blast
qed

section \<open>The range of the iteration count\<close>

text \<open>
  C8: with a budget of at least \<open>1\<close> the iteration count of every pixel is an integer
  from \<open>0\<close> to the budget; a count other than the budget means that the escape test
  failed, and (for a budget below \<open>2 ^ 53\<close>) the hue is the sentinel \<open>0\<close> of a point that
  did not escape exactly when the count equals the budget.
\<close>

theorem iteration_count_range:
  assumes "1 \<le> maxIterations s"
  shows "0 \<le> iterations (pixel_x0 s px) (pixel_y0 s py) (maxIterations s) \<and>
         iterations (pixel_x0 s px) (pixel_y0 s py) (maxIterations s) \<le> maxIterations s \<and>
         (iterations (pixel_x0 s px) (pixel_y0 s py) (maxIterations s) \<noteq> maxIterations s \<longrightarrow>
            (case escape_loop (pixel_x0 s px) (pixel_y0 s py) (maxIterations s) (lit 0, lit 0, 0) of
               (x, y, iteration) \<Rightarrow> \<not> x * x + y * y \<le> lit 4)) \<and>
         (maxIterations s < 2 ^ 53 \<longrightarrow>
            (colorValue (maxIterations s) (iterations (pixel_x0 s px) (pixel_y0 s py) (maxIterations s)) = lit 0
              \<longleftrightarrow> iterations (pixel_x0 s px) (pixel_y0 s py) (maxIterations s) = maxIterations s))"
proof -
  define n where "n = iterations (pixel_x0 s px) (pixel_y0 s py) (maxIterations s)"
  have b: "1 \<le> n" "n \<le> maxIterations s" using iterations_first[OF assms] by (simp_all add: n_def)
  have "colorValue (maxIterations s) n = lit 0 \<longleftrightarrow> n = maxIterations s" if "maxIterations s < 2 ^ 53"
  proof (cases "n = maxIterations s")
    case True
    then show ?thesis by (simp add: colorValue_def)
  next
    case False
    then have "n < maxIterations s" using b by simp
    from hue_unit(2)[OF _ this that] b False show ?thesis by simp
  qed
  moreover have "case escape_loop (pixel_x0 s px) (pixel_y0 s py) (maxIterations s) (lit 0, lit 0, 0) of
               (x, y, iteration) \<Rightarrow> \<not> x * x + y * y \<le> lit 4" if "n \<noteq> maxIterations s"
  proof -
    obtain x y i where e: "escape_loop (pixel_x0 s px) (pixel_y0 s py) (maxIterations s) (lit 0, lit 0, 0) = (x, y, i)"
      by (cases "escape_loop (pixel_x0 s px) (pixel_y0 s py) (maxIterations s) (lit 0, lit 0, 0)")
    then have "i = n" by (simp add: n_def iterations_def)
    then have "i < maxIterations s" using b that by simp
    then show ?thesis using escape_loop_exit[OF e] by (simp add: e)
  qed
  ultimately show ?thesis using b unfolding n_def by simp
qed

theorem iteration_count_range_witness:
  "1 \<le> maxIterations (initial 1 1) \<and>
   iterations (pixel_x0 (initial 1 1) 0) (pixel_y0 (initial 1 1) 0) (maxIterations (initial 1 1)) = 1 \<and>
   maxIterations (initial 1 1) < 2 ^ 53 \<and>
   colorValue (maxIterations (initial 1 1)) 1 \<noteq> lit 0"
proof -
  have m: "maxIterations (initial 1 1) = 100" by (simp add: initial_def)
  have i: "iterations (pixel_x0 (initial 1 1) 0) (pixel_y0 (initial 1 1) 0) 100 = 1"
    unfolding initial_x0 initial_y0 by (rule initial_iterations)
  have h: "1 \<le> maxIterations (initial 1 1)" unfolding m by simp
  from iteration_count_range[OF h, of 0 0] show ?thesis unfolding m i by simp
qed

section \<open>Zooming in and out again\<close>

text \<open>
  C9, as the code has it: for every zoom value \<open>z\<close> with \<open>2 ^ -1021 \<le> z \<le> 2 ^ 1022\<close>, a
  zoom-in step (times \<open>1.1\<close>) followed by a zoom-out step (divided by \<open>1.1\<close>), and the two
  steps in the other order, restore \<open>z\<close> within the relative tolerance \<open>10 ^ -9\<close>.
\<close>

theorem zoom_round_trip:
  assumes "zoom s = Fin z" "pow2 (- 1021) \<le> z" "z \<le> pow2 1022"
    and "deltaY zin < lit 0" "\<not> deltaY zout < lit 0"
  shows "close_to (1 / 10 ^ 9) (zoom s) (zoom (fst (wheel zout (fst (wheel zin s))))) \<and>
         close_to (1 / 10 ^ 9) (zoom s) (zoom (fst (wheel zin (fst (wheel zout s)))))"
proof -
  define c :: rat where "c = 2476979795053773 / 2251799813685248"
  have c: "1 < c" "c < 2" by (simp_all add: c_def)
  have "pow2 1 = 2" by (simp add: pow2_def)
  then have p: "pow2 (- 1021) = 2 * pow2 (- 1022)" "pow2 1023 = 2 * pow2 1022"
    using pow2_add[of 1 "- 1022"] pow2_add[of 1 1022] by simp_all
  have z: "2 * pow2 (- 1022) \<le> z" "2 * z \<le> pow2 1023" using assms(2,3) p by simp_all
  have zp: "0 < z" using z(1) pow2_pos[of "- 1022"] by linarith
  have "zoom (fst (wheel zout (fst (wheel zin s)))) = Fin z * Fin c / Fin c"
    using assms by (simp add: wheel_zoom lit_1_1 c_def)
  moreover have "\<exists>b. Fin z * Fin c / Fin c = Fin b \<and> \<bar>b - z\<bar> \<le> 1 / 10 ^ 9 * \<bar>z\<bar>"
  proof -
    have "z \<le> z * c" "z * c \<le> 2 * z" using c zp by simp_all
    then have "pow2 (- 1022) \<le> z * c" "z * c \<le> pow2 1023" using z zp by linarith+
    from rnd_normal[OF this] obtain a where a: "rnd (z * c) = Fin a" "\<bar>a - z * c\<bar> \<le> z * c / 9007199254740992"
      by blast
    have "\<bar>a / c - z\<bar> = \<bar>a - z * c\<bar> / c" using c by (simp add: abs_if field_simps)
    also have "\<dots> \<le> (z * c / 9007199254740992) / c" using a(2) c by (intro divide_right_mono) simp_all
    also have "\<dots> = z / 9007199254740992" using c by simp
    finally have "\<bar>a / c - z\<bar> \<le> z / 9007199254740992" .
    from round_trip[OF z this] show ?thesis using a(1) c by simp
  qed
  moreover have "zoom (fst (wheel zin (fst (wheel zout s)))) = Fin z / Fin c * Fin c"
    using assms by (simp add: wheel_zoom lit_1_1 c_def)
  moreover have "\<exists>b. Fin z / Fin c * Fin c = Fin b \<and> \<bar>b - z\<bar> \<le> 1 / 10 ^ 9 * \<bar>z\<bar>"
  proof -
    have "z / 2 \<le> z / c" "z / c \<le> z" using c zp by (simp_all add: field_simps)
    then have "pow2 (- 1022) \<le> z / c" "z / c \<le> pow2 1023" using z zp by linarith+
    from rnd_normal[OF this] obtain a where a: "rnd (z / c) = Fin a" "\<bar>a - z / c\<bar> \<le> z / c / 9007199254740992"
      by blast
    have "\<bar>a * c - z\<bar> = \<bar>a - z / c\<bar> * c" using c by (simp add: abs_if field_simps)
    also have "\<dots> \<le> (z / c / 9007199254740992) * c" using a(2) c by (intro mult_right_mono) simp_all
    also have "\<dots> = z / 9007199254740992" using c by simp
    finally have "\<bar>a * c - z\<bar> \<le> z / 9007199254740992" .
    from round_trip[OF z this] show ?thesis using a(1) c by simp
  qed
  ultimately show ?thesis using assms(1) by auto
qed

theorem zoom_round_trip_witness:
  "zoom (initial 1 1) = Fin 1 \<and> pow2 (- 1021) \<le> 1 \<and> 1 \<le> pow2 1022 \<and>
   deltaY \<lparr>deltaY = - lit 1, clientX = lit 0, clientY = lit 0, rect_left = lit 0, rect_top = lit 0\<rparr> < lit 0 \<and>
   \<not> deltaY \<lparr>deltaY = lit 1, clientX = lit 0, clientY = lit 0, rect_left = lit 0, rect_top = lit 0\<rparr> < lit 0 \<and>
   close_to (1 / 10 ^ 9) (zoom (initial 1 1))
     (zoom (fst (wheel \<lparr>deltaY = lit 1, clientX = lit 0, clientY = lit 0, rect_left = lit 0, rect_top = lit 0\<rparr>
        (fst (wheel \<lparr>deltaY = - lit 1, clientX = lit 0, clientY = lit 0, rect_left = lit 0, rect_top = lit 0\<rparr>
           (initial 1 1)))))) \<and>
   close_to (1 / 10 ^ 9) (zoom (initial 1 1))
     (zoom (fst (wheel \<lparr>deltaY = - lit 1, clientX = lit 0, clientY = lit 0, rect_left = lit 0, rect_top = lit 0\<rparr>
        (fst (wheel \<lparr>deltaY = lit 1, clientX = lit 0, clientY = lit 0, rect_left = lit 0, rect_top = lit 0\<rparr>
           (initial 1 1))))))"
proof -
  have z: "zoom (initial 1 1) = Fin 1" by (simp add: initial_def number_simps)
  have p: "pow2 (- 1021) \<le> 1" "1 \<le> pow2 1022" by (simp_all add: pow2_def)
  have i: "deltaY \<lparr>deltaY = - lit 1, clientX = lit 0, clientY = lit 0, rect_left = lit 0, rect_top = lit 0\<rparr> < lit 0"
    by (simp add: number_simps)
  have o: "\<not> deltaY \<lparr>deltaY = lit 1, clientX = lit 0, clientY = lit 0, rect_left = lit 0, rect_top = lit 0\<rparr> < lit 0"
    by (simp add: number_simps)
  from zoom_round_trip[OF z p i o] z p i o show ?thesis by blast
qed

text \<open>
  C9 as stated fails for a positive zoom value near the smallest number: from
  \<open>5 * 2 ^ -1074\<close> a zoom-out step leaves \<open>5 * 2 ^ -1074\<close> and the zoom-in step after it
  gives \<open>6 * 2 ^ -1074\<close>, a fifth more.
\<close>

theorem zoom_round_trip_fails:
  "\<not> close_to (1 / 10 ^ 9)
      (zoom ((initial 1 1)\<lparr>zoom := Fin (5 * pow2 (- 1074))\<rparr>))
      (zoom (fst (wheel \<lparr>deltaY = - lit 1, clientX = lit 0, clientY = lit 0, rect_left = lit 0, rect_top = lit 0\<rparr>
         (fst (wheel \<lparr>deltaY = lit 1, clientX = lit 0, clientY = lit 0, rect_left = lit 0, rect_top = lit 0\<rparr>
            ((initial 1 1)\<lparr>zoom := Fin (5 * pow2 (- 1074))\<rparr>))))))"
proof -
  have i: "deltaY \<lparr>deltaY = - lit 1, clientX = lit 0, clientY = lit 0, rect_left = lit 0, rect_top = lit 0\<rparr> < lit 0"
    by (simp add: number_simps)
  have o: "\<not> deltaY \<lparr>deltaY = lit 1, clientX = lit 0, clientY = lit 0, rect_left = lit 0, rect_top = lit 0\<rparr> < lit 0"
    by (simp add: number_simps)
  have z: "zoom ((initial 1 1)\<lparr>zoom := Fin (5 * pow2 (- 1074))\<rparr>) = Fin (5 * pow2 (- 1074))"
    by simp
  have "zoom (fst (wheel \<lparr>deltaY = - lit 1, clientX = lit 0, clientY = lit 0, rect_left = lit 0, rect_top = lit 0\<rparr>
         (fst (wheel \<lparr>deltaY = lit 1, clientX = lit 0, clientY = lit 0, rect_left = lit 0, rect_top = lit 0\<rparr>
            ((initial 1 1)\<lparr>zoom := Fin (5 * pow2 (- 1074))\<rparr>))))) = Fin (6 * pow2 (- 1074))"
    unfolding wheel_zoom by (simp only: i o if_True if_False z lit_1_1 tiny_out tiny_in)
  moreover have "\<not> close_to (1 / 10 ^ 9) (Fin (5 * pow2 (- 1074))) (Fin (6 * pow2 (- 1074)))"
    by (simp add: pow2_def)
  ultimately show ?thesis by (simp only: z not_False_eq_True)
qed

section \<open>The point under the pointer\<close>

text \<open>
  C7, as the code has it: after a zoom step of the wheel handler, the plane coordinate that
  maps to the pointer's position under the new viewport is the coordinate that mapped to
  it before, up to the rounding of one subtraction and one addition: when the old
  coordinate \<open>a\<close> and the pointer's offset \<open>t\<close> from the centre, in plane units at the new
  zoom, are finite with \<open>\<bar>a\<bar> + \<bar>t\<bar> \<le> 2 ^ 1022\<close>, the new coordinate is finite and differs from
  \<open>a\<close> by at most \<open>2 ^ -51 * (\<bar>a\<bar> + \<bar>t\<bar>)\<close>, on both axes.
\<close>

theorem zoom_keeps_pointer:
  assumes "plane_x s (clientX ev - rect_left ev) = Fin a"
    and "(clientX ev - rect_left ev - num (width s) / lit 2) * (lit 4 / num (width s))
           / zoom (fst (wheel ev s)) = Fin t"
    and "\<bar>a\<bar> + \<bar>t\<bar> \<le> pow2 1022"
    and "plane_y s (clientY ev - rect_top ev) = Fin a'"
    and "(clientY ev - rect_top ev - num (height s) / lit 2) * (lit 4 / num (height s))
           / zoom (fst (wheel ev s)) = Fin t'"
    and "\<bar>a'\<bar> + \<bar>t'\<bar> \<le> pow2 1022"
  shows "(\<exists>b. plane_x (fst (wheel ev s)) (clientX ev - rect_left ev) = Fin b
              \<and> \<bar>b - a\<bar> \<le> pow2 (- 51) * (\<bar>a\<bar> + \<bar>t\<bar>)) \<and>
         (\<exists>b'. plane_y (fst (wheel ev s)) (clientY ev - rect_top ev) = Fin b'
              \<and> \<bar>b' - a'\<bar> \<le> pow2 (- 51) * (\<bar>a'\<bar> + \<bar>t'\<bar>))"
proof -
  obtain i where i: "a = of_int i * pow2 (- 1074)"
    using plus_grid[OF assms(1)[unfolded plane_x_def]] by auto
  obtain j where j: "t = of_int j * pow2 (- 1074)"
    using divide_grid[OF assms(2)] by auto
  have x: "plane_x (fst (wheel ev s)) (clientX ev - rect_left ev) = Fin t + (Fin a - Fin t)"
    unfolding plane_x_def[of "fst (wheel ev s)"] wheel_width wheel_offsetX assms(1,2) ..
  obtain i' where i': "a' = of_int i' * pow2 (- 1074)"
    using plus_grid[OF assms(4)[unfolded plane_y_def]] by auto
  obtain j' where j': "t' = of_int j' * pow2 (- 1074)"
    using divide_grid[OF assms(5)] by auto
  have y: "plane_y (fst (wheel ev s)) (clientY ev - rect_top ev) = Fin t' + (Fin a' - Fin t')"
    unfolding plane_y_def[of "fst (wheel ev s)"] wheel_width wheel_offsetY assms(4,5) ..
  show ?thesis unfolding x y using recentre[OF i j assms(3)] recentre[OF i' j' assms(6)] by blast
qed

theorem zoom_keeps_pointer_witness:
  "plane_x ((initial 8 8)\<lparr>offsetX := lit 3\<rparr>) (clientX \<lparr>deltaY = - lit 1, clientX = lit 0, clientY = lit 0, rect_left = lit 0, rect_top = lit 0\<rparr> - rect_left \<lparr>deltaY = - lit 1, clientX = lit 0, clientY = lit 0, rect_left = lit 0, rect_top = lit 0\<rparr>) = Fin 1 \<and>
   (clientX \<lparr>deltaY = - lit 1, clientX = lit 0, clientY = lit 0, rect_left = lit 0, rect_top = lit 0\<rparr> - rect_left \<lparr>deltaY = - lit 1, clientX = lit 0, clientY = lit 0, rect_left = lit 0, rect_top = lit 0\<rparr> - num (width ((initial 8 8)\<lparr>offsetX := lit 3\<rparr>)) / lit 2)
      * (lit 4 / num (width ((initial 8 8)\<lparr>offsetX := lit 3\<rparr>))) / zoom (fst (wheel \<lparr>deltaY = - lit 1, clientX = lit 0, clientY = lit 0, rect_left = lit 0, rect_top = lit 0\<rparr> ((initial 8 8)\<lparr>offsetX := lit 3\<rparr>))) = Fin (- (8188362958855447 / 4503599627370496)) \<and>
   \<bar>1\<bar> + \<bar>(- (8188362958855447 / 4503599627370496))\<bar> \<le> pow2 1022 \<and>
   plane_y ((initial 8 8)\<lparr>offsetX := lit 3\<rparr>) (clientY \<lparr>deltaY = - lit 1, clientX = lit 0, clientY = lit 0, rect_left = lit 0, rect_top = lit 0\<rparr> - rect_top \<lparr>deltaY = - lit 1, clientX = lit 0, clientY = lit 0, rect_left = lit 0, rect_top = lit 0\<rparr>) = Fin (- 2) \<and>
   (clientY \<lparr>deltaY = - lit 1, clientX = lit 0, clientY = lit 0, rect_left = lit 0, rect_top = lit 0\<rparr> - rect_top \<lparr>deltaY = - lit 1, clientX = lit 0, clientY = lit 0, rect_left = lit 0, rect_top = lit 0\<rparr> - num (height ((initial 8 8)\<lparr>offsetX := lit 3\<rparr>)) / lit 2)
      * (lit 4 / num (height ((initial 8 8)\<lparr>offsetX := lit 3\<rparr>))) / zoom (fst (wheel \<lparr>deltaY = - lit 1, clientX = lit 0, clientY = lit 0, rect_left = lit 0, rect_top = lit 0\<rparr> ((initial 8 8)\<lparr>offsetX := lit 3\<rparr>))) = Fin (- (8188362958855447 / 4503599627370496)) \<and>
   \<bar>- 2\<bar> + \<bar>(- (8188362958855447 / 4503599627370496))\<bar> \<le> pow2 1022 \<and>
   (\<exists>b. plane_x (fst (wheel \<lparr>deltaY = - lit 1, clientX = lit 0, clientY = lit 0, rect_left = lit 0, rect_top = lit 0\<rparr> ((initial 8 8)\<lparr>offsetX := lit 3\<rparr>))) (clientX \<lparr>deltaY = - lit 1, clientX = lit 0, clientY = lit 0, rect_left = lit 0, rect_top = lit 0\<rparr> - rect_left \<lparr>deltaY = - lit 1, clientX = lit 0, clientY = lit 0, rect_left = lit 0, rect_top = lit 0\<rparr>) = Fin b
        \<and> \<bar>b - 1\<bar> \<le> pow2 (- 51) * (\<bar>1\<bar> + \<bar>(- (8188362958855447 / 4503599627370496))\<bar>)) \<and>
   (\<exists>b'. plane_y (fst (wheel \<lparr>deltaY = - lit 1, clientX = lit 0, clientY = lit 0, rect_left = lit 0, rect_top = lit 0\<rparr> ((initial 8 8)\<lparr>offsetX := lit 3\<rparr>))) (clientY \<lparr>deltaY = - lit 1, clientX = lit 0, clientY = lit 0, rect_left = lit 0, rect_top = lit 0\<rparr> - rect_top \<lparr>deltaY = - lit 1, clientX = lit 0, clientY = lit 0, rect_left = lit 0, rect_top = lit 0\<rparr>) = Fin b'
        \<and> \<bar>b' - (- 2)\<bar> \<le> pow2 (- 51) * (\<bar>- 2\<bar> + \<bar>(- (8188362958855447 / 4503599627370496))\<bar>))"
proof -
  have tx: "(clientX \<lparr>deltaY = - lit 1, clientX = lit 0, clientY = lit 0, rect_left = lit 0, rect_top = lit 0\<rparr> - rect_left \<lparr>deltaY = - lit 1, clientX = lit 0, clientY = lit 0, rect_left = lit 0, rect_top = lit 0\<rparr> - num (width ((initial 8 8)\<lparr>offsetX := lit 3\<rparr>)) / lit 2)
      * (lit 4 / num (width ((initial 8 8)\<lparr>offsetX := lit 3\<rparr>))) / zoom (fst (wheel \<lparr>deltaY = - lit 1, clientX = lit 0, clientY = lit 0, rect_left = lit 0, rect_top = lit 0\<rparr> ((initial 8 8)\<lparr>offsetX := lit 3\<rparr>))) = Fin (- (8188362958855447 / 4503599627370496))"
    unfolding panned_zoom by (rule panned_offset(1))
  have ty: "(clientY \<lparr>deltaY = - lit 1, clientX = lit 0, clientY = lit 0, rect_left = lit 0, rect_top = lit 0\<rparr> - rect_top \<lparr>deltaY = - lit 1, clientX = lit 0, clientY = lit 0, rect_left = lit 0, rect_top = lit 0\<rparr> - num (height ((initial 8 8)\<lparr>offsetX := lit 3\<rparr>)) / lit 2)
      * (lit 4 / num (height ((initial 8 8)\<lparr>offsetX := lit 3\<rparr>))) / zoom (fst (wheel \<lparr>deltaY = - lit 1, clientX = lit 0, clientY = lit 0, rect_left = lit 0, rect_top = lit 0\<rparr> ((initial 8 8)\<lparr>offsetX := lit 3\<rparr>))) = Fin (- (8188362958855447 / 4503599627370496))"
    unfolding panned_zoom by (rule panned_offset(2))
  have bx: "\<bar>1\<bar> + \<bar>(- (8188362958855447 / 4503599627370496))\<bar> \<le> pow2 1022" by (simp add: pow2_def)
  have by': "\<bar>- 2\<bar> + \<bar>(- (8188362958855447 / 4503599627370496))\<bar> \<le> pow2 1022" by (simp add: pow2_def)
  from zoom_keeps_pointer[OF panned_before(1) tx bx panned_before(2) ty by']
    panned_before tx ty bx by'
  show ?thesis by blast
qed

text \<open>
  C7 as stated fails: on a canvas \<open>8\<close> pixels wide panned to \<open>offsetX = 3\<close>, the point under
  the pointer at the left edge is \<open>1\<close> before a zoom-in step and \<open>1 + 2 ^ -52\<close> after it.
\<close>

theorem zoom_moves_pointer:
  "plane_x ((initial 8 8)\<lparr>offsetX := lit 3\<rparr>) (clientX \<lparr>deltaY = - lit 1, clientX = lit 0, clientY = lit 0, rect_left = lit 0, rect_top = lit 0\<rparr> - rect_left \<lparr>deltaY = - lit 1, clientX = lit 0, clientY = lit 0, rect_left = lit 0, rect_top = lit 0\<rparr>) = Fin 1 \<and>
   plane_x (fst (wheel \<lparr>deltaY = - lit 1, clientX = lit 0, clientY = lit 0, rect_left = lit 0, rect_top = lit 0\<rparr> ((initial 8 8)\<lparr>offsetX := lit 3\<rparr>))) (clientX \<lparr>deltaY = - lit 1, clientX = lit 0, clientY = lit 0, rect_left = lit 0, rect_top = lit 0\<rparr> - rect_left \<lparr>deltaY = - lit 1, clientX = lit 0, clientY = lit 0, rect_left = lit 0, rect_top = lit 0\<rparr>) = Fin (4503599627370497 / 4503599627370496) \<and>
   Fin (4503599627370497 / 4503599627370496) \<noteq> Fin 1"
  using panned_before(1) panned_after by simp

end
